theory Spec2Isabelle
  imports Main "HOL-Library.Sublist"
begin

section \<open>Python strings\<close>

text \<open>
  A Python \<open>str\<close> is a sequence of Unicode code points, so it is modelled as a list of
  natural numbers; \<open>len\<close> is \<open>length\<close>. ASCII literals of the source are written
  \<open>lit ''...''\<close>, the few non-ASCII ones as their code points.
\<close>

type_synonym pystr = "nat list"

definition lit :: "string \<Rightarrow> pystr" where
  "lit s = map of_char s"

text \<open>
  The characters matched by the regular expression class \<open>\s\<close> on \<open>str\<close> patterns and
  removed by \<open>str.strip()\<close>: the code points for which \<open>str.isspace()\<close> holds.
\<close>

definition is_space :: "nat \<Rightarrow> bool" where
  "is_space c \<longleftrightarrow>
     (9 \<le> c \<and> c \<le> 13) \<or> (28 \<le> c \<and> c \<le> 32) \<or> c = 133 \<or> c = 160 \<or> c = 5760 \<or>
     (8192 \<le> c \<and> c \<le> 8202) \<or> c = 8232 \<or> c = 8233 \<or> c = 8239 \<or> c = 8287 \<or> c = 12288"

text \<open>\<open>s.strip()\<close>\<close>

definition strip :: "pystr \<Rightarrow> pystr" where
  "strip s = rev (dropWhile is_space (rev (dropWhile is_space s)))"

text \<open>\<open>re.sub(r"\s+", " ", s)\<close>: every maximal run of whitespace becomes one space.\<close>

function collapse_ws :: "pystr \<Rightarrow> pystr" where
  "collapse_ws [] = []"
| "collapse_ws (c # cs) =
     (if is_space c then 32 # collapse_ws (dropWhile is_space cs)
      else c # collapse_ws cs)"
  by pat_completeness auto
termination
  by (relation "measure length") (auto simp: length_dropWhile_le less_Suc_eq_le)

text \<open>\<open>re.sub(r"\s+", "", s)\<close>: all whitespace is deleted.\<close>

definition remove_ws :: "pystr \<Rightarrow> pystr" where
  "remove_ws s = filter (\<lambda>c. \<not> is_space c) s"

text \<open>
  \<open>text.find(sub)\<close> on the whole string: the least index at which \<open>sub\<close> starts, as an
  option (\<open>None\<close> stands for Python's \<open>-1\<close>).
\<close>

fun find_index_of :: "pystr \<Rightarrow> pystr \<Rightarrow> nat option" where
  "find_index_of [] sub = (if sub = [] then Some 0 else None)"
| "find_index_of (c # cs) sub =
     (if prefix sub (c # cs) then Some 0
      else map_option Suc (find_index_of cs sub))"

text \<open>\<open>text.find(sub, start)\<close> with \<open>0 \<le> start\<close>, returning \<open>-1\<close> when there is no occurrence.\<close>

definition py_find :: "pystr \<Rightarrow> pystr \<Rightarrow> nat \<Rightarrow> int" where
  "py_find text sub start =
     (if length text < start then - 1
      else case find_index_of (drop start text) sub of
             None \<Rightarrow> - 1
           | Some k \<Rightarrow> int (start + k))"

text \<open>\<open>sub in text\<close>\<close>

definition py_in :: "pystr \<Rightarrow> pystr \<Rightarrow> bool" where
  "py_in sub text \<longleftrightarrow> find_index_of text sub \<noteq> None"

text \<open>\<open>text.split(sep, 1)\<close> for a non-empty separator: one or two parts.\<close>

definition split1 :: "pystr \<Rightarrow> pystr \<Rightarrow> pystr list" where
  "split1 text sep =
     (case find_index_of text sep of
        None \<Rightarrow> [text]
      | Some k \<Rightarrow> [take k text, drop (k + length sep) text])"

text \<open>\<open>text.endswith(suffix)\<close>\<close>

definition endswith :: "pystr \<Rightarrow> pystr \<Rightarrow> bool" where
  "endswith text sfx \<longleftrightarrow> suffix sfx text"

subsection \<open>Exceptions\<close>

text \<open>
  An exception is its class, as far as the handlers of the source distinguish classes
  (\<open>except ValueError\<close>, \<open>except Exception\<close>), and the text \<open>str(e)\<close>.
\<close>

datatype exn_class = ValueError | TypeError | IndexError | OtherException | BaseExceptionOnly

datatype exn = Exn exn_class pystr

fun exn_str :: "exn \<Rightarrow> pystr" where
  "exn_str (Exn _ msg) = msg"

fun is_ValueError :: "exn \<Rightarrow> bool" where
  "is_ValueError (Exn k _) = (k = ValueError)"

fun is_Exception :: "exn \<Rightarrow> bool" where
  "is_Exception (Exn k _) = (k \<noteq> BaseExceptionOnly)"

text \<open>\<open>parts[i]\<close> on a list: out of range raises \<open>IndexError\<close>.\<close>

definition list_get :: "'a list \<Rightarrow> nat \<Rightarrow> exn + 'a" where
  "list_get xs i =
     (if i < length xs then Inr (xs ! i)
      else Inl (Exn IndexError (lit ''list index out of range'')))"

section \<open>The response parser (\<open>phone_agent/model/client.py\<close>)\<close>

text \<open>
  \<open>_normalize_xmlish_tags\<close>: every leftmost, non-overlapping match of the expression
  \<open><[^>]+>\<close> is replaced by itself with all whitespace removed. At a \<open><\<close> the expression
  matches up to the next \<open>>\<close> when at least one character lies between them; when no
  \<open>>\<close> follows at all there is no match from there on.
\<close>

function normalize_xmlish_tags :: "pystr \<Rightarrow> pystr" where
  "normalize_xmlish_tags [] = []"
| "normalize_xmlish_tags (c # cs) =
     (if c = 60 then
        (let body = takeWhile (\<lambda>x. x \<noteq> 62) cs;
             rest = dropWhile (\<lambda>x. x \<noteq> 62) cs
         in if rest = [] then c # cs
            else if body = [] then c # normalize_xmlish_tags cs
            else remove_ws (c # body @ [62]) @ normalize_xmlish_tags (tl rest))
      else c # normalize_xmlish_tags cs)"
  by pat_completeness auto
termination
proof (relation "measure length")
  fix c :: nat and cs xa :: "nat list" and x :: "nat list"
  assume "xa = dropWhile (\<lambda>x. x \<noteq> 62) cs" "xa \<noteq> []"
  then have "length (tl xa) < length xa" by (cases xa) auto
  moreover have "length xa \<le> length cs"
    using \<open>xa = dropWhile (\<lambda>x. x \<noteq> 62) cs\<close> by (simp add: length_dropWhile_le)
  ultimately show "(tl xa, c # cs) \<in> measure length" by simp
qed simp_all

text \<open>\<open>_extract_between(text, a, b)\<close>\<close>

definition extract_between :: "pystr \<Rightarrow> pystr \<Rightarrow> pystr \<Rightarrow> pystr" where
  "extract_between text a b =
     (let i = py_find text a 0
      in if i = - 1 then []
         else let i' = nat i + length a;
                  j = py_find text b i'
              in if j = - 1 then drop i' text
                 else take (nat j - i') (drop i' text))"

text \<open>
  \<open>ModelClient._parse_response\<close>. The subscripts \<open>parts[0]\<close> and \<open>parts[1]\<close> are the
  only operations of the function that can raise.
\<close>

definition parse_response :: "pystr \<Rightarrow> exn + (pystr \<times> pystr)" where
  "parse_response content =
     (let c = normalize_xmlish_tags content
      in if py_in (lit ''<tool_call>'') c then
           (let thinking = strip (extract_between c (lit ''<think_text>'') (lit ''</think_text>''));
                thinking = strip (collapse_ws thinking);
                action = strip (extract_between c (lit ''<tool_call>'') (lit ''</tool_call>''));
                action = (if action = [] then
                            (let pos = nat (py_find c (lit ''<tool_call>'') 0) + length (lit ''<tool_call>'')
                             in strip (drop pos c))
                          else action)
            in Inr (thinking, action))
         else if py_in (lit ''finish(message='') content then
           (let parts = split1 content (lit ''finish(message='')
            in case list_get parts 0 of
                 Inl e \<Rightarrow> Inl e
               | Inr p0 \<Rightarrow>
                   (case list_get parts 1 of
                      Inl e \<Rightarrow> Inl e
                    | Inr p1 \<Rightarrow> Inr (strip p0, lit ''finish(message='' @ p1)))
         else if py_in (lit ''do(action='') content then
           (let parts = split1 content (lit ''do(action='')
            in case list_get parts 0 of
                 Inl e \<Rightarrow> Inl e
               | Inr p0 \<Rightarrow>
                   (case list_get parts 1 of
                      Inl e \<Rightarrow> Inl e
                    | Inr p1 \<Rightarrow> Inr (strip p0, lit ''do(action='' @ p1)))
         else Inr ([], strip content))"

subsection \<open>The streaming loop of \<open>ModelClient.request\<close>\<close>

text \<open>
  One element of the stream: a chunk without choices, or the \<open>delta.content\<close> of its
  first choice, which may be \<open>None\<close>.
\<close>

datatype chunk = NoChoices | Delta "pystr option"

text \<open>
  The variables of the loop together with the two fields of the client that
  \<open>_clean_stream_content\<close> reads and writes. \<open>printed\<close> is standard output: one entry for
  each call of \<open>print\<close>, the bare \<open>print()\<close> being a line feed. The timing variables are
  left out.
\<close>

record stream_state =
  raw :: pystr
  buffer :: pystr
  in_action_phase :: bool
  in_tag :: bool
  tag_buffer :: pystr
  printed :: "pystr list"

record model_response =
  thinking :: pystr
  action :: pystr
  raw_content :: pystr

definition action_markers :: "pystr list" where
  "action_markers = [lit ''finish(message='', lit ''do(action='']"

text \<open>The character loop of \<open>_clean_stream_content\<close>.\<close>

fun clean_scan :: "pystr \<Rightarrow> bool \<Rightarrow> pystr \<Rightarrow> pystr \<Rightarrow> pystr \<times> bool \<times> pystr" where
  "clean_scan [] it tb clean_chars = (clean_chars, it, tb)"
| "clean_scan (c # cs) it tb clean_chars =
     (if c = 60 \<and> \<not> it then clean_scan cs True [60] clean_chars
      else if c = 62 \<and> it then clean_scan cs False [] clean_chars
      else if it then clean_scan cs it (tb @ [c]) clean_chars
      else clean_scan cs it tb (clean_chars @ [c]))"

definition clean_stream_content :: "stream_state \<Rightarrow> pystr \<Rightarrow> pystr \<times> stream_state" where
  "clean_stream_content st text =
     (case clean_scan text (in_tag st) (tag_buffer st) [] of
        (clean_chars, it, tb) \<Rightarrow>
          (strip (collapse_ws clean_chars), st\<lparr>in_tag := it, tag_buffer := tb\<rparr>))"

definition print_out :: "stream_state \<Rightarrow> pystr \<Rightarrow> stream_state" where
  "print_out st s = st\<lparr>printed := printed st @ [s]\<rparr>"

text \<open>The first marker of the list, in list order, that occurs in the buffer.\<close>

fun first_marker_in :: "pystr list \<Rightarrow> pystr \<Rightarrow> pystr option" where
  "first_marker_in [] buf = None"
| "first_marker_in (m # ms) buf =
     (if py_in m buf then Some m else first_marker_in ms buf)"

text \<open>Does the buffer end with \<open>marker[:i]\<close> for some marker and some \<open>1 \<le> i < len(marker)\<close>?\<close>

definition is_potential_marker :: "pystr list \<Rightarrow> pystr \<Rightarrow> bool" where
  "is_potential_marker ms buf \<longleftrightarrow>
     list_ex (\<lambda>m. list_ex (\<lambda>i. endswith buf (take i m)) [1..<length m]) ms"

text \<open>
  The body of \<open>for chunk in stream\<close>. \<open>buffer.split(marker, 1)[0]\<close> is the head of the
  split, which always has at least one part.
\<close>

fun process_chunk :: "stream_state \<Rightarrow> chunk \<Rightarrow> stream_state" where
  "process_chunk st NoChoices = st"
| "process_chunk st (Delta None) = st"
| "process_chunk st (Delta (Some content)) =
     (let st = st\<lparr>raw := raw st @ content\<rparr>
      in if in_action_phase st then st
         else
           (let st = st\<lparr>buffer := buffer st @ content\<rparr>
            in case first_marker_in action_markers (buffer st) of
                 Some marker \<Rightarrow>
                   (let thinking_part = hd (split1 (buffer st) marker)
                    in case clean_stream_content st thinking_part of
                         (clean_thinking, st) \<Rightarrow>
                           (let st = (if clean_thinking \<noteq> [] then print_out st clean_thinking else st);
                                st = print_out st [10]
                            in st\<lparr>in_action_phase := True\<rparr>))
               | None \<Rightarrow>
                   if is_potential_marker action_markers (buffer st) then st
                   else
                     (case clean_stream_content st (buffer st) of
                        (clean_buffer, st) \<Rightarrow>
                          (let st = (if clean_buffer \<noteq> [] then print_out st clean_buffer else st)
                           in st\<lparr>buffer := []\<rparr>))))"

definition initial_stream_state :: stream_state where
  "initial_stream_state =
     \<lparr>raw = [], buffer = [], in_action_phase = False, in_tag = False, tag_buffer = [],
      printed = []\<rparr>"

definition request_loop :: "chunk list \<Rightarrow> stream_state" where
  "request_loop chunks = foldl process_chunk initial_stream_state chunks"

text \<open>
  What \<open>request\<close> returns once the stream is exhausted (the latency fields and the
  performance lines printed at the end are left out).
\<close>

definition response_of_stream :: "chunk list \<Rightarrow> exn + model_response" where
  "response_of_stream chunks =
     (let st = request_loop chunks
      in case parse_response (raw st) of
           Inl e \<Rightarrow> Inl e
         | Inr (t, a) \<Rightarrow> Inr \<lparr>thinking = t, action = a, raw_content = raw st\<rparr>)"

text \<open>The text fragments a stream delivers, in order.\<close>

fun fragments :: "chunk list \<Rightarrow> pystr list" where
  "fragments [] = []"
| "fragments (NoChoices # cs) = fragments cs"
| "fragments (Delta None # cs) = fragments cs"
| "fragments (Delta (Some content) # cs) = content # fragments cs"

section \<open>Values and actions\<close>

text \<open>
  The values an action dictionary holds: \<open>None\<close>, strings, integers and lists of integers
  (coordinates). On these, Python's \<open>==\<close> is equality of the values.
\<close>

datatype pyval = VNone | VStr pystr | VInt int | VList "int list"

fun truthy :: "pyval \<Rightarrow> bool" where
  "truthy VNone = False"
| "truthy (VStr s) = (s \<noteq> [])"
| "truthy (VInt i) = (i \<noteq> 0)"
| "truthy (VList xs) = (xs \<noteq> [])"

text \<open>\<open>str(n)\<close> for an integer: its decimal digits.\<close>

fun str_nat :: "nat \<Rightarrow> pystr" where
  "str_nat n = (if n < 10 then [48 + n] else str_nat (n div 10) @ [48 + n mod 10])"

definition str_int :: "int \<Rightarrow> pystr" where
  "str_int i = (if i < 0 then 45 # str_nat (nat (- i)) else str_nat (nat i))"

text \<open>\<open>", ".join(parts)\<close>\<close>

fun join_comma :: "pystr list \<Rightarrow> pystr" where
  "join_comma [] = []"
| "join_comma [x] = x"
| "join_comma (x # y # ys) = x @ lit '', '' @ join_comma (y # ys)"

text \<open>\<open>str(v)\<close>, which is what \<open>format\<close> and f-strings insert for a value.\<close>

fun py_str :: "pyval \<Rightarrow> pystr" where
  "py_str VNone = lit ''None''"
| "py_str (VStr s) = s"
| "py_str (VInt i) = str_int i"
| "py_str (VList xs) = lit ''['' @ join_comma (map str_int xs) @ lit '']''"

type_synonym action_dict = "pystr \<rightharpoonup> pyval"

text \<open>\<open>d.get(key)\<close> and \<open>d.get(key, default)\<close>\<close>

definition dict_get :: "action_dict \<Rightarrow> pystr \<Rightarrow> pyval" where
  "dict_get d k = (case d k of None \<Rightarrow> VNone | Some v \<Rightarrow> v)"

definition dict_get_default :: "action_dict \<Rightarrow> pystr \<Rightarrow> pyval \<Rightarrow> pyval" where
  "dict_get_default d k dflt = (case d k of None \<Rightarrow> dflt | Some v \<Rightarrow> v)"

text \<open>
  Modelled from the spec: the action constructor \<open>finish\<close> of \<open>phone_agent.actions.handler\<close>
  is not among the sources. It builds the finish action carrying the message; the agent
  recognises a finish action by \<open>action.get("_metadata") == "finish"\<close> and reads its text
  with \<open>action.get("message")\<close>.
\<close>

definition finish :: "pystr \<Rightarrow> action_dict" where
  "finish msg = [lit ''_metadata'' \<mapsto> VStr (lit ''finish''), lit ''message'' \<mapsto> VStr msg]"

section \<open>The agent (\<open>phone_agent/agent.py\<close>)\<close>

record agent_config =
  max_steps :: int
  device_id :: "pystr option"
  lang :: pystr
  system_prompt :: pystr
  verbose :: bool
  retry_reminder_threshold :: int

text \<open>The defaults of \<open>AgentConfig\<close>; the system prompt of the language is a parameter.\<close>

definition default_agent_config :: "pystr \<Rightarrow> agent_config" where
  "default_agent_config prompt =
     \<lparr>max_steps = 100, device_id = None, lang = lit ''cn'', system_prompt = prompt,
      verbose = True, retry_reminder_threshold = 3\<rparr>"

record step_result =
  success :: bool
  finished :: bool
  result_action :: "action_dict option"
  result_thinking :: pystr
  message :: pyval

subsection \<open>Messages (\<open>MessageBuilder\<close>)\<close>

datatype content_item = ImageUrl pystr | TextItem pystr

datatype message_content = ContentStr pystr | ContentList "content_item list"

record chat_message =
  role :: pystr
  content :: message_content

definition create_system_message :: "pystr \<Rightarrow> chat_message" where
  "create_system_message c = \<lparr>role = lit ''system'', content = ContentStr c\<rparr>"

definition create_user_message :: "pystr \<Rightarrow> pystr option \<Rightarrow> chat_message" where
  "create_user_message text image_base64 =
     \<lparr>role = lit ''user'',
      content = ContentList
        ((case image_base64 of
            None \<Rightarrow> []
          | Some b \<Rightarrow> if b \<noteq> [] then [ImageUrl (lit ''data:image/png;base64,'' @ b)] else [])
         @ [TextItem text])\<rparr>"

definition create_assistant_message :: "pystr \<Rightarrow> chat_message" where
  "create_assistant_message c = \<lparr>role = lit ''assistant'', content = ContentStr c\<rparr>"

fun is_text_item :: "content_item \<Rightarrow> bool" where
  "is_text_item (TextItem _) = True"
| "is_text_item (ImageUrl _) = False"

definition remove_images_from_message :: "chat_message \<Rightarrow> chat_message" where
  "remove_images_from_message m =
     (case content m of
        ContentList items \<Rightarrow> m\<lparr>content := ContentList (filter is_text_item items)\<rparr>
      | ContentStr _ \<Rightarrow> m)"

text \<open>
  \<open>json.dumps\<close> of a string with \<open>ensure_ascii=False\<close>: the quote and the backslash are
  escaped, control characters have their short or \<open>\u00XX\<close> escapes, everything else
  stays.
\<close>

definition hex_digit :: "nat \<Rightarrow> nat" where
  "hex_digit d = (if d < 10 then 48 + d else 87 + d)"

definition json_escape_char :: "nat \<Rightarrow> pystr" where
  "json_escape_char c =
     (if c = 92 then [92, 92]
      else if c = 34 then [92, 34]
      else if c = 8 then [92, 98]
      else if c = 12 then [92, 102]
      else if c = 10 then [92, 110]
      else if c = 13 then [92, 114]
      else if c = 9 then [92, 116]
      else if c < 32 then [92, 117, 48, 48, hex_digit (c div 16), hex_digit (c mod 16)]
      else [c])"

definition json_string :: "pystr \<Rightarrow> pystr" where
  "json_string s = [34] @ concat (map json_escape_char s) @ [34]"

definition build_screen_info :: "pystr \<Rightarrow> pystr" where
  "build_screen_info current_app =
     lit ''{'' @ json_string (lit ''current_app'') @ lit '': '' @ json_string current_app @ lit ''}''"

subsection \<open>Retry tracking\<close>

record agent_state =
  "context" :: "chat_message list"
  step_count :: int
  last_action_type :: pyval
  last_action_target :: pyval
  retry_count :: int

definition initial_agent_state :: agent_state where
  "initial_agent_state =
     \<lparr>context = [], step_count = 0, last_action_type = VNone, last_action_target = VNone,
      retry_count = 0\<rparr>"

definition reset_action_tracking :: "agent_state \<Rightarrow> agent_state" where
  "reset_action_tracking st =
     st\<lparr>last_action_type := VNone, last_action_target := VNone, retry_count := 0\<rparr>"

definition reset :: "agent_state \<Rightarrow> agent_state" where
  "reset st = reset_action_tracking (st\<lparr>context := [], step_count := 0\<rparr>)"

text \<open>
  \<open>_truncate_text\<close>: \<open>len\<close> raises on a value without a length, and the concatenation of
  a list slice with \<open>"..."\<close> raises as well.
\<close>

definition truncate_text :: "pyval \<Rightarrow> exn + pyval" where
  "truncate_text text =
     (case text of
        VStr s \<Rightarrow> if length s \<le> 50 then Inr (VStr s) else Inr (VStr (take (50 - 3) s @ lit ''...''))
      | VList xs \<Rightarrow>
          if length xs \<le> 50 then Inr (VList xs)
          else Inl (Exn TypeError (lit ''can only concatenate list (not '' @ [34] @ lit ''str'' @ [34]
                                 @ lit '') to list''))
      | VInt _ \<Rightarrow> Inl (Exn TypeError (lit ''object of type '' @ [39] @ lit ''int'' @ [39]
                                       @ lit '' has no len()''))
      | VNone \<Rightarrow> Inl (Exn TypeError (lit ''object of type '' @ [39] @ lit ''NoneType'' @ [39]
                                      @ lit '' has no len()'')))"

text \<open>
  \<open>name in {...}\<close> for a set of string literals: hashing a list raises \<open>TypeError\<close>.
\<close>

definition in_names :: "pyval \<Rightarrow> pystr list \<Rightarrow> exn + bool" where
  "in_names v names =
     (case v of
        VStr s \<Rightarrow> Inr (s \<in> set names)
      | VList _ \<Rightarrow> Inl (Exn TypeError (lit ''unhashable type: '' @ [39] @ lit ''list'' @ [39]))
      | _ \<Rightarrow> Inr False)"

text \<open>\<open>isinstance(v, list) and len(v) >= 2\<close>\<close>

fun is_pair_list :: "pyval \<Rightarrow> bool" where
  "is_pair_list (VList xs) = (2 \<le> length xs)"
| "is_pair_list _ = False"

text \<open>\<open>f"({v[0]}, {v[1]})"\<close> for a list with at least two entries.\<close>

fun format_point :: "pyval \<Rightarrow> pystr" where
  "format_point (VList (x # y # _)) = lit ''('' @ str_int x @ lit '', '' @ str_int y @ lit '')''"
| "format_point _ = []"

definition format_action_target :: "action_dict \<Rightarrow> exn + pyval" where
  "format_action_target a =
     (let metadata = dict_get a (lit ''_metadata'')
      in if metadata = VStr (lit ''finish'') then Inr (dict_get_default a (lit ''message'') (VStr []))
         else if metadata \<noteq> VStr (lit ''do'') then Inr (VStr [])
         else
           (let action_name = dict_get a (lit ''action'')
            in if action_name = VStr (lit ''Launch'') then Inr (dict_get_default a (lit ''app'') (VStr []))
               else case in_names action_name [lit ''Tap'', lit ''Double Tap'', lit ''Long Press''] of
                 Inl e \<Rightarrow> Inl e
               | Inr True \<Rightarrow>
                   (let element = dict_get a (lit ''element'')
                    in if is_pair_list element then Inr (VStr (format_point element))
                       else Inr (VStr []))
               | Inr False \<Rightarrow>
                   if action_name = VStr (lit ''Swipe'') then
                     (let start = dict_get a (lit ''start'');
                          end' = dict_get a (lit ''end'')
                      in if is_pair_list start \<and> is_pair_list end'
                         then Inr (VStr (format_point start @ lit '' -> '' @ format_point end'))
                         else Inr (VStr []))
                   else case in_names action_name [lit ''Type'', lit ''Type_Name''] of
                     Inl e \<Rightarrow> Inl e
                   | Inr True \<Rightarrow>
                       (case truncate_text (dict_get_default a (lit ''text'') (VStr [])) of
                          Inl e \<Rightarrow> Inl e
                        | Inr t \<Rightarrow> Inr (VStr (lit ''text='' @ [39] @ py_str t @ [39])))
                   | Inr False \<Rightarrow>
                       if action_name = VStr (lit ''Wait'')
                       then Inr (dict_get_default a (lit ''duration'') (VStr []))
                       else case in_names action_name [lit ''Back'', lit ''Home''] of
                         Inl e \<Rightarrow> Inl e
                       | Inr True \<Rightarrow> Inr (VStr (lit ''navigation''))
                       | Inr False \<Rightarrow>
                           if action_name = VStr (lit ''Take_over'')
                           then Inr (dict_get_default a (lit ''message'') (VStr []))
                           else Inr (VStr [])))"

text \<open>The action type that \<open>_update_last_action_state\<close> computes.\<close>

definition action_type_of :: "action_dict \<Rightarrow> pyval" where
  "action_type_of a =
     (if dict_get a (lit ''_metadata'') = VStr (lit ''do'') then dict_get a (lit ''action'')
      else dict_get a (lit ''_metadata''))"

definition update_last_action_state :: "agent_state \<Rightarrow> action_dict \<Rightarrow> exn + agent_state" where
  "update_last_action_state st a =
     (let action_type = action_type_of a
      in case format_action_target a of
           Inl e \<Rightarrow> Inl e
         | Inr action_target \<Rightarrow>
             if truthy action_type \<and> action_type = last_action_type st
                \<and> action_target = last_action_target st
             then Inr (st\<lparr>retry_count := retry_count st + 1\<rparr>)
             else Inr (st\<lparr>last_action_type := action_type,
                          last_action_target := action_target,
                          retry_count := (if truthy action_type then 1 else 0)\<rparr>))"

text \<open>The two literals of \<open>_build_retry_note\<close>, as code points.\<close>

definition escalation_clause :: pystr where
  "escalation_clause =
     [12290, 35831, 32771, 34385, 20854, 20182, 31574, 30053, 25110, 35843, 29992, 32]
     @ lit ''finish'' @ [32, 35831, 27714, 20154, 24037, 25509, 31649, 12290]"

definition retry_note_text :: "pyval \<Rightarrow> pystr \<Rightarrow> int \<Rightarrow> pystr" where
  "retry_note_text ty target n =
     [24050, 23581, 35797, 32] @ py_str ty @ target @ [32, 20849, 32] @ str_int n
     @ [32, 27425, 65292, 30028, 38754, 26410, 21464, 21270, 47, 29366, 24577, 20173, 26410,
        36798, 25104]"

definition build_retry_note :: "agent_config \<Rightarrow> agent_state \<Rightarrow> pystr option" where
  "build_retry_note cfg st =
     (if \<not> truthy (last_action_type st) \<or> retry_count st \<le> 0 then None
      else
        (let target = (if truthy (last_action_target st)
                       then lit '' '' @ py_str (last_action_target st) else []);
             note = retry_note_text (last_action_type st) target (retry_count st);
             threshold = retry_reminder_threshold cfg
         in if threshold \<noteq> 0 \<and> retry_count st \<ge> threshold
            then Some (note @ escalation_clause)
            else Some note))"

definition compose_user_text :: "agent_config \<Rightarrow> agent_state \<Rightarrow> pystr \<Rightarrow> pystr" where
  "compose_user_text cfg st base_text =
     (case build_retry_note cfg st of
        None \<Rightarrow> base_text
      | Some retry_note \<Rightarrow>
          if retry_note \<noteq> [] then retry_note @ [10, 10] @ base_text else base_text)"

subsection \<open>The collaborators\<close>

text \<open>
  The device, the model transport, the decoder and the executor are outside the agent.
  Each call may succeed or raise, and may change the outside world, whose state \<open>'w\<close> is
  threaded through the calls. The transport delivers the chunks of the stream and then
  either ends or raises (a failure to open the stream is the error after no chunk).
\<close>

record screenshot =
  base64_data :: pystr
  width :: int
  height :: int

record action_result =
  exec_success :: bool
  should_finish :: bool
  exec_message :: "pystr option"

record 'w collaborators =
  get_screenshot :: "pystr option \<Rightarrow> 'w \<Rightarrow> (exn + screenshot) \<times> 'w"
  get_current_app :: "pystr option \<Rightarrow> 'w \<Rightarrow> (exn + pystr) \<times> 'w"
  chat_completions_create :: "chat_message list \<Rightarrow> 'w \<Rightarrow> (chunk list \<times> exn option) \<times> 'w"
  parse_action :: "pystr \<Rightarrow> exn + action_dict"
  execute :: "action_dict \<Rightarrow> int \<Rightarrow> int \<Rightarrow> 'w \<Rightarrow> (exn + action_result) \<times> 'w"

text \<open>\<open>ModelClient.request\<close>: the stream is consumed, then the text is parsed.\<close>

definition request :: "'w collaborators \<Rightarrow> chat_message list \<Rightarrow> 'w \<Rightarrow> (exn + model_response) \<times> 'w" where
  "request env messages w =
     (case chat_completions_create env messages w of
        ((chunks, Some e), w') \<Rightarrow> (Inl e, w')
      | ((chunks, None), w') \<Rightarrow> (response_of_stream chunks, w'))"

subsection \<open>One step\<close>

text \<open>\<open>"{}".format(user_prompt)\<close> for an optional string.\<close>

definition format_optional :: "pystr option \<Rightarrow> pystr" where
  "format_optional p = (case p of None \<Rightarrow> lit ''None'' | Some s \<Rightarrow> s)"

text \<open>\<open>result.message or executed_action.get("message")\<close>\<close>

definition message_or :: "pystr option \<Rightarrow> pyval \<Rightarrow> pyval" where
  "message_or m other = (case m of Some s \<Rightarrow> if s \<noteq> [] then VStr s else other | None \<Rightarrow> other)"

text \<open>
  \<open>_execute_step\<close> is written out block by block. The first block appends the turns of
  the step to the context (lines 113 to 135 of the source).
\<close>

definition append_user_turn ::
  "agent_config \<Rightarrow> pystr option \<Rightarrow> bool \<Rightarrow> pystr \<Rightarrow> screenshot \<Rightarrow> agent_state \<Rightarrow> agent_state" where
  "append_user_turn cfg user_prompt is_first current_app shot st1 =
     (if is_first then
        (let st = st1\<lparr>context := context st1 @ [create_system_message (system_prompt cfg)]\<rparr>;
             screen_info = build_screen_info current_app;
             text_content = format_optional user_prompt @ [10, 10] @ screen_info;
             text_content = compose_user_text cfg st text_content
         in st\<lparr>context := context st @ [create_user_message text_content (Some (base64_data shot))]\<rparr>)
      else
        (let screen_info = build_screen_info current_app;
             text_content = lit ''** Screen Info **'' @ [10, 10] @ screen_info;
             text_content = compose_user_text cfg st1 text_content
         in st1\<lparr>context := context st1 @ [create_user_message text_content (Some (base64_data shot))]\<rparr>))"

text \<open>
  The decoding of the action text (lines 154 to 159): a \<open>ValueError\<close> of the decoder is
  replaced by a finish action that carries the text, any other exception goes on.
\<close>

definition decode_action :: "'w collaborators \<Rightarrow> model_response \<Rightarrow> exn + action_dict" where
  "decode_action env response =
     (case parse_action env (action response) of
        Inr a \<Rightarrow> Inr a
      | Inl e \<Rightarrow> if is_ValueError e then Inr (finish (action response)) else Inl e)"

text \<open>
  The dispatch to the executor (lines 169 to 180): when it raises an \<open>Exception\<close>, a finish
  action with the text of the exception is dispatched instead, outside any handler.
\<close>

definition dispatch ::
  "'w collaborators \<Rightarrow> action_dict \<Rightarrow> screenshot \<Rightarrow> 'w
    \<Rightarrow> (exn + action_dict \<times> action_result) \<times> 'w" where
  "dispatch env act shot w3 =
     (case execute env act (width shot) (height shot) w3 of
        (Inr result, w4) \<Rightarrow> (Inr (act, result), w4)
      | (Inl e, w4) \<Rightarrow>
          if is_Exception e then
            (let executed_action = finish (exn_str e)
             in case execute env executed_action (width shot) (height shot) w4 of
                  (Inr result, w5) \<Rightarrow> (Inr (executed_action, result), w5)
                | (Inl e', w5) \<Rightarrow> (Inl e', w5))
          else (Inl e, w4))"

text \<open>The end of the step (lines 182 to 211).\<close>

definition conclude_step ::
  "model_response \<Rightarrow> action_dict \<Rightarrow> action_result \<Rightarrow> agent_state
    \<Rightarrow> (exn + step_result) \<times> agent_state" where
  "conclude_step response executed_action result st3 =
     (let st4 = st3\<lparr>context := context st3 @
                  [create_assistant_message
                     (lit ''<think>'' @ thinking response @ lit ''</think><answer>''
                      @ action response @ lit ''</answer>'')]\<rparr>;
          fin = (dict_get executed_action (lit ''_metadata'') = VStr (lit ''finish'')
                 \<or> should_finish result)
      in case update_last_action_state st4 executed_action of
           Inl e \<Rightarrow> (Inl e, st4)
         | Inr st5 \<Rightarrow>
             (Inr \<lparr>success = exec_success result, finished = fin,
                   result_action = Some executed_action,
                   result_thinking = thinking response,
                   message = message_or (exec_message result)
                               (dict_get executed_action (lit ''message''))\<rparr>,
              st5))"

text \<open>
  The whole of \<open>_execute_step\<close>. The result is what the call returns or raises, together
  with the state of the agent and of the world at that moment. The narration on standard
  output, with its look-ups in the table of locale messages, is not part of the model.
\<close>

definition execute_step ::
  "'w collaborators \<Rightarrow> agent_config \<Rightarrow> pystr option \<Rightarrow> bool \<Rightarrow> agent_state \<Rightarrow> 'w
    \<Rightarrow> (exn + step_result) \<times> agent_state \<times> 'w" where
  "execute_step env cfg user_prompt is_first st0 w0 =
     (let st1 = st0\<lparr>step_count := step_count st0 + 1\<rparr>
      in case get_screenshot env (device_id cfg) w0 of
           (Inl e, w1) \<Rightarrow> (Inl e, st1, w1)
         | (Inr shot, w1) \<Rightarrow>
      (case get_current_app env (device_id cfg) w1 of
           (Inl e, w2) \<Rightarrow> (Inl e, st1, w2)
         | (Inr current_app, w2) \<Rightarrow>
      (let st2 = append_user_turn cfg user_prompt is_first current_app shot st1
       in case request env (context st2) w2 of
            (Inl e, w3) \<Rightarrow>
              if is_Exception e then
                (Inr \<lparr>success = False, finished = True, result_action = None, result_thinking = [],
                      message = VStr (lit ''Model error: '' @ exn_str e)\<rparr>, st2, w3)
              else (Inl e, st2, w3)
          | (Inr response, w3) \<Rightarrow>
       (case decode_action env response of
            Inl e \<Rightarrow> (Inl e, st2, w3)
          | Inr act \<Rightarrow>
       (let st3 = st2\<lparr>context := (context st2)[length (context st2) - 1 :=
                                      remove_images_from_message (last (context st2))]\<rparr>
        in case dispatch env act shot w3 of
             (Inl e, w5) \<Rightarrow> (Inl e, st3, w5)
           | (Inr (executed_action, result), w5) \<Rightarrow>
               (case conclude_step response executed_action result st3 of
                  (r, st5) \<Rightarrow> (r, st5, w5)))))))"

text \<open>\<open>step\<close>: \<open>not task\<close> holds for \<open>None\<close> and for the empty string.\<close>

definition step ::
  "'w collaborators \<Rightarrow> agent_config \<Rightarrow> pystr option \<Rightarrow> agent_state \<Rightarrow> 'w
    \<Rightarrow> (exn + step_result) \<times> agent_state \<times> 'w" where
  "step env cfg task st w =
     (let is_first = (length (context st) = 0)
      in if is_first \<and> (task = None \<or> task = Some [])
         then (Inl (Exn ValueError (lit ''Task is required for the first step'')), st, w)
         else execute_step env cfg task is_first st w)"

subsection \<open>The loop of \<open>run\<close>\<close>

text \<open>Every step adds one to the step counter, whatever its outcome.\<close>

lemma step_count_update_last_action_state:
  "update_last_action_state st a = Inr st' \<Longrightarrow> step_count st' = step_count st"
  by (auto simp: update_last_action_state_def Let_def split: sum.splits if_splits)

lemma step_count_append_user_turn:
  "step_count (append_user_turn cfg p f app shot st) = step_count st"
  by (simp add: append_user_turn_def Let_def)

lemma step_count_conclude_step:
  "conclude_step resp a r st = (x, st') \<Longrightarrow> step_count st' = step_count st"
  by (auto simp: conclude_step_def Let_def split: sum.splits
           dest: step_count_update_last_action_state)

lemma step_count_execute_step:
  "execute_step env cfg p f st w = (r, st', w') \<Longrightarrow> step_count st' = step_count st + 1"
  unfolding execute_step_def Let_def
  by (auto simp: step_count_append_user_turn split: prod.splits sum.splits if_splits
           dest: step_count_conclude_step)

text \<open>\<open>result.message or "Task completed"\<close>\<close>

definition final_message :: "step_result \<Rightarrow> pyval" where
  "final_message result =
     (if truthy (message result) then message result else VStr (lit ''Task completed''))"

text \<open>The \<open>while\<close> loop of \<open>run\<close>; an exception of a step leaves the loop and \<open>run\<close>.\<close>

function run_loop ::
  "'w collaborators \<Rightarrow> agent_config \<Rightarrow> agent_state \<Rightarrow> 'w \<Rightarrow> (exn + pyval) \<times> agent_state \<times> 'w" where
  "run_loop env cfg st w =
     (if step_count st < max_steps cfg then
        (case execute_step env cfg None False st w of
           (Inl e, st', w') \<Rightarrow> (Inl e, st', w')
         | (Inr result, st', w') \<Rightarrow>
             if finished result then (Inr (final_message result), st', w')
             else run_loop env cfg st' w')
      else (Inr (VStr (lit ''Max steps reached'')), st, w))"
  by pat_completeness auto
termination
proof (relation "measure (\<lambda>(env, cfg, st, w). nat (max_steps cfg - step_count st))")
  fix env :: "'w collaborators" and cfg st w x y b xa ya
  assume below: "step_count st < max_steps cfg"
    and call: "(x, y) = execute_step env cfg None False st w" and "(xa, ya) = y"
  then have "execute_step env cfg None False st w = (x, xa, ya)"
    by simp
  then have "step_count xa = step_count st + 1"
    by (rule step_count_execute_step)
  with below
  show "((env, cfg, xa, ya), env, cfg, st, w)
         \<in> measure (\<lambda>(env, cfg, st, w). nat (max_steps cfg - step_count st))"
    by simp
qed simp

declare run_loop.simps [simp del]

definition run ::
  "'w collaborators \<Rightarrow> agent_config \<Rightarrow> pystr \<Rightarrow> agent_state \<Rightarrow> 'w \<Rightarrow> (exn + pyval) \<times> agent_state \<times> 'w" where
  "run env cfg task st w =
     (let st = reset_action_tracking (st\<lparr>context := [], step_count := 0\<rparr>)
      in case execute_step env cfg (Some task) True st w of
           (Inl e, st', w') \<Rightarrow> (Inl e, st', w')
         | (Inr result, st', w') \<Rightarrow>
             if finished result then (Inr (final_message result), st', w')
             else run_loop env cfg st' w')"

section \<open>Notions used to state the properties\<close>

text \<open>
  \<open>after_first t a rest\<close>: \<open>rest\<close> is everything after the first occurrence of \<open>a\<close> in
  \<open>t\<close>. \<open>enclosed t a b v\<close>: \<open>v\<close> is the substring of \<open>t\<close> enclosed between the first
  \<open>a\<close> and the next \<open>b\<close> after it; everything after \<open>a\<close> when no \<open>b\<close> follows; empty
  when \<open>a\<close> does not occur.
\<close>

definition after_first :: "pystr \<Rightarrow> pystr \<Rightarrow> pystr \<Rightarrow> bool" where
  "after_first t a rest \<longleftrightarrow> (\<exists>pre. t = pre @ a @ rest \<and> \<not> sublist a (pre @ butlast a))"

definition enclosed :: "pystr \<Rightarrow> pystr \<Rightarrow> pystr \<Rightarrow> pystr \<Rightarrow> bool" where
  "enclosed t a b v \<longleftrightarrow>
     (\<not> sublist a t \<and> v = []) \<or>
     (\<exists>rest. after_first t a rest \<and>
        ((\<not> sublist b rest \<and> v = rest) \<or>
         (\<exists>post. rest = v @ b @ post \<and> \<not> sublist b (v @ butlast b))))"

text \<open>
  Successive calls of \<open>_update_last_action_state\<close>, one for each action of the list; a
  call that raises ends the sequence with its exception.
\<close>

fun update_all :: "agent_state \<Rightarrow> action_dict list \<Rightarrow> exn + agent_state" where
  "update_all st [] = Inr st"
| "update_all st (a # as) =
     (case update_last_action_state st a of
        Inl e \<Rightarrow> Inl e
      | Inr st' \<Rightarrow> update_all st' as)"

text \<open>
  The two operations on the retry tracker. An update that raises leaves the tracker as it
  was. \<open>last_classified\<close> is the type of the action that the most recent update since the
  last reset has classified, if there was one.
\<close>

datatype tracker_event = Update action_dict | Reset

fun apply_event :: "agent_state \<Rightarrow> tracker_event \<Rightarrow> agent_state" where
  "apply_event st (Update a) =
     (case update_last_action_state st a of Inl e \<Rightarrow> st | Inr st' \<Rightarrow> st')"
| "apply_event st Reset = reset_action_tracking st"

fun last_classified :: "pyval option \<Rightarrow> tracker_event list \<Rightarrow> pyval option" where
  "last_classified acc [] = acc"
| "last_classified acc (Reset # es) = last_classified None es"
| "last_classified acc (Update a # es) =
     last_classified
       (case format_action_target a of Inl e \<Rightarrow> acc | Inr _ \<Rightarrow> Some (action_type_of a)) es"

text \<open>
  What the tracker holds when \<open>lt\<close> is the type classified last: that type, and a count
  of at least one exactly when the type is not empty.
\<close>

definition tracker_inv :: "pyval option \<Rightarrow> agent_state \<Rightarrow> bool" where
  "tracker_inv lt st \<longleftrightarrow>
     (case lt of
        None \<Rightarrow> \<not> truthy (last_action_type st) \<and> retry_count st = 0
      | Some t \<Rightarrow> last_action_type st = t \<and>
                  (if truthy t then 1 \<le> retry_count st else retry_count st = 0))"

text \<open>
  A scripted environment for concrete runs: the device, the transport and the decoder
  answer the same at every call, the executor answers by the number of dispatches made
  so far, which is the state of the world.
\<close>

definition scripted_env ::
  "(exn + screenshot) \<Rightarrow> (chunk list \<times> exn option) \<Rightarrow> (exn + action_dict)
    \<Rightarrow> (nat \<Rightarrow> exn + action_result) \<Rightarrow> nat collaborators" where
  "scripted_env shot stream decoded exec =
     \<lparr>get_screenshot = (\<lambda>d w. (shot, w)),
      get_current_app = (\<lambda>d w. (Inr (lit ''home''), w)),
      chat_completions_create = (\<lambda>m w. (stream, w)),
      parse_action = (\<lambda>s. decoded),
      execute = (\<lambda>a wd ht w. (exec w, Suc w))\<rparr>"

definition blank_screenshot :: screenshot where
  "blank_screenshot = \<lparr>base64_data = lit ''AAAA'', width = 1080, height = 2400\<rparr>"

definition dispatch_ok :: action_result where
  "dispatch_ok = \<lparr>exec_success = True, should_finish = False, exec_message = None\<rparr>"

text \<open>The action \<open>do(action="Back")\<close>, and a \<open>do\<close> action whose name is the empty string.\<close>

definition back_action :: action_dict where
  "back_action = [lit ''_metadata'' \<mapsto> VStr (lit ''do''), lit ''action'' \<mapsto> VStr (lit ''Back'')]"

definition unnamed_action :: action_dict where
  "unnamed_action = [lit ''_metadata'' \<mapsto> VStr (lit ''do''), lit ''action'' \<mapsto> VStr []]"

definition always_ok :: "nat \<Rightarrow> exn + action_result" where
  "always_ok w = Inr dispatch_ok"

definition raise_once :: "nat \<Rightarrow> exn + action_result" where
  "raise_once w = (if w = 0 then Inl (Exn OtherException (lit ''boom'')) else Inr dispatch_ok)"

definition always_raise :: "nat \<Rightarrow> exn + action_result" where
  "always_raise w = Inl (Exn OtherException (lit ''boom''))"

text \<open>A model that answers nothing, decoded as \<open>do(action="Back")\<close>: no step finishes.\<close>

definition idle_env :: "nat collaborators" where
  "idle_env = scripted_env (Inr blank_screenshot) ([], None) (Inr back_action) always_ok"

text \<open>A model whose answer the decoder rejects with a \<open>ValueError\<close>.\<close>

definition undecodable_env :: "(nat \<Rightarrow> exn + action_result) \<Rightarrow> nat collaborators" where
  "undecodable_env exec =
     scripted_env (Inr blank_screenshot) ([Delta (Some (lit ''tap the button''))], None)
       (Inl (Exn ValueError (lit ''Failed to parse action''))) exec"

text \<open>A device that cannot be reached, a transport that times out, an executor that is broken.\<close>

definition offline_env :: "nat collaborators" where
  "offline_env =
     scripted_env (Inl (Exn OtherException (lit ''device offline''))) ([], None)
       (Inr back_action) always_ok"

definition timeout_env :: "nat collaborators" where
  "timeout_env =
     scripted_env (Inr blank_screenshot) ([], Some (Exn OtherException (lit ''timeout'')))
       (Inr back_action) always_ok"

definition broken_executor_env :: "nat collaborators" where
  "broken_executor_env =
     scripted_env (Inr blank_screenshot) ([], None) (Inr back_action) always_raise"

text \<open>
  The steps that the loop of \<open>run\<close> executes when started in the given state: each of
  them returns a result, and none of the results is finished. The recursion is that of
  the loop itself, under the same guard.
\<close>

function executed_steps_unfinished ::
  "'w collaborators \<Rightarrow> agent_config \<Rightarrow> agent_state \<Rightarrow> 'w \<Rightarrow> bool" where
  "executed_steps_unfinished env cfg st w =
     (if step_count st < max_steps cfg then
        (case execute_step env cfg None False st w of
           (Inl e, st', w') \<Rightarrow> False
         | (Inr result, st', w') \<Rightarrow>
             \<not> finished result \<and> executed_steps_unfinished env cfg st' w')
      else True)"
  by pat_completeness auto
termination
proof (relation "measure (\<lambda>(env, cfg, st, w). nat (max_steps cfg - step_count st))")
  fix env :: "'w collaborators" and cfg st w x y b xa ya
  assume below: "step_count st < max_steps cfg"
    and call: "(x, y) = execute_step env cfg None False st w" and "(xa, ya) = y"
  then have "execute_step env cfg None False st w = (x, xa, ya)"
    by simp
  then have "step_count xa = step_count st + 1"
    by (rule step_count_execute_step)
  with below
  show "((env, cfg, xa, ya), env, cfg, st, w)
         \<in> measure (\<lambda>(env, cfg, st, w). nat (max_steps cfg - step_count st))"
    by simp
qed simp

declare executed_steps_unfinished.simps [simp del]

text \<open>
  No step that \<open>run\<close> executes for the task reports finished: the first step, which
  \<open>run\<close> executes after its reset, and the steps of the loop after it.
\<close>

definition no_step_finishes ::
  "'w collaborators \<Rightarrow> agent_config \<Rightarrow> pystr \<Rightarrow> agent_state \<Rightarrow> 'w \<Rightarrow> bool" where
  "no_step_finishes env cfg task st w =
     (case execute_step env cfg (Some task) True
             (reset_action_tracking (st\<lparr>context := [], step_count := 0\<rparr>)) w of
        (Inl e, st', w') \<Rightarrow> False
      | (Inr result, st', w') \<Rightarrow>
          \<not> finished result \<and> executed_steps_unfinished env cfg st' w')"

text \<open>An executor that reports completion from its sixth dispatch on.\<close>

definition finish_late :: "nat \<Rightarrow> exn + action_result" where
  "finish_late w = Inr (dispatch_ok\<lparr>should_finish := (5 \<le> w)\<rparr>)"

definition late_env :: "nat collaborators" where
  "late_env = scripted_env (Inr blank_screenshot) ([], None) (Inr back_action) finish_late"

section \<open>Facts about the string operations\<close>

lemma find_index_of_None_iff: "find_index_of t sub = None \<longleftrightarrow> \<not> sublist sub t"
  by (induction t) (auto simp: sublist_Cons_right)

lemma prefix_overlap:
  assumes "prefix sub (pre @ sub @ post)" and "pre \<noteq> []"
  shows "prefix sub (pre @ butlast sub)"
proof (cases "sub = []")
  case True then show ?thesis by simp
next
  case False
  then have sub: "sub = butlast sub @ [last sub]" by simp
  have "prefix sub ((pre @ butlast sub) @ ([last sub] @ post))"
    using assms(1) sub by (metis append.assoc)
  then show ?thesis
    unfolding prefix_append [of sub "pre @ butlast sub"]
  proof
    assume "prefix sub (pre @ butlast sub)" then show ?thesis .
  next
    assume "\<exists>us. sub = (pre @ butlast sub) @ us \<and> prefix us ([last sub] @ post)"
    then obtain us where us: "sub = (pre @ butlast sub) @ us" by blast
    then have "length sub = length pre + (length sub - 1) + length us"
      by (metis length_append length_butlast)
    with assms(2) False have "us = []" by (cases pre; cases sub) auto
    with us have "sub = pre @ butlast sub" by simp
    then show ?thesis by (metis prefix_order.order_refl)
  qed
qed

lemma find_index_of_first:
  "\<not> sublist sub (pre @ butlast sub) \<Longrightarrow> find_index_of (pre @ sub @ post) sub = Some (length pre)"
proof (induction pre)
  case Nil
  then have "sub \<noteq> []" by auto
  then show ?case by (cases sub) auto
next
  case (Cons p ps)
  have "\<not> prefix sub ((p # ps) @ sub @ post)"
  proof
    assume "prefix sub ((p # ps) @ sub @ post)"
    then have "prefix sub ((p # ps) @ butlast sub)" by (rule prefix_overlap) simp
    then have "sublist sub ((p # ps) @ butlast sub)" by (rule prefix_imp_sublist)
    with Cons.prems show False by simp
  qed
  moreover have "\<not> sublist sub (ps @ butlast sub)"
    using Cons.prems by (auto simp: sublist_Cons_right)
  ultimately show ?case using Cons.IH by simp
qed

lemma find_index_of_Some:
  "find_index_of t sub = Some k \<Longrightarrow> \<exists>post. t = take k t @ sub @ post"
proof (induction t arbitrary: k)
  case Nil then show ?case by (auto split: if_splits)
next
  case (Cons c cs)
  show ?case
  proof (cases "prefix sub (c # cs)")
    case True
    with Cons.prems have "k = 0" by simp
    with True show ?thesis by (auto simp: prefix_def)
  next
    case False
    with Cons.prems obtain j where "find_index_of cs sub = Some j" "k = Suc j" by auto
    with Cons.IH show ?thesis by auto
  qed
qed

lemma find_index_of_Some_first:
  "find_index_of t sub = Some k \<Longrightarrow> sub \<noteq> [] \<Longrightarrow> \<not> sublist sub (take k t @ butlast sub)"
proof (induction t arbitrary: k)
  case Nil then show ?case by (auto split: if_splits)
next
  case (Cons c cs)
  show ?case
  proof (cases "prefix sub (c # cs)")
    case True
    with Cons.prems have "k = 0" by simp
    moreover have "\<not> sublist sub (butlast sub)"
      using Cons.prems(2) by (metis sublist_length_le length_butlast diff_less length_greater_0_conv not_less zero_less_one)
    ultimately show ?thesis by simp
  next
    case False
    with Cons.prems obtain j where j: "find_index_of cs sub = Some j" "k = Suc j" by auto
    have "\<not> sublist sub (take j cs @ butlast sub)" using Cons.IH [OF j(1) Cons.prems(2)] .
    moreover have "\<not> prefix sub (c # take j cs @ butlast sub)"
    proof
      assume p: "prefix sub (c # take j cs @ butlast sub)"
      obtain post where "cs = take j cs @ sub @ post" using find_index_of_Some [OF j(1)] by blast
      then have "c # cs = (c # take j cs @ butlast sub) @ (last sub # post)"
        using Cons.prems(2) by (metis append.assoc append_Cons append_butlast_last_id append_Nil)
      then have "prefix sub (c # cs)" using p by (metis prefix_prefix)
      with False show False by simp
    qed
    ultimately show ?thesis using j(2) by (simp add: sublist_Cons_right)
  qed
qed

lemma py_in_iff: "py_in sub t \<longleftrightarrow> sublist sub t"
  by (simp add: py_in_def find_index_of_None_iff)

lemma find_index_of_after_first:
  assumes "find_index_of t a = Some k" and "a \<noteq> []"
  shows "after_first t a (drop (k + length a) t)"
proof -
  obtain post where post: "t = take k t @ a @ post"
    using find_index_of_Some [OF assms(1)] by blast
  have k: "k \<le> length t"
    using post by (metis append_eq_conv_conj length_take min.absorb2 nat_le_linear take_all_iff append_Nil2 assms(2) append_is_Nil_conv)
  have "drop (k + length a) t = post"
    using post k by (metis (no_types, lifting) append_eq_conv_conj drop_drop add.commute length_take min.absorb2)
  moreover have "\<not> sublist a (take k t @ butlast a)"
    using find_index_of_Some_first [OF assms] .
  ultimately show ?thesis
    unfolding after_first_def using post by blast
qed

lemma after_first_find:
  "after_first t a rest \<Longrightarrow> \<exists>pre. t = pre @ a @ rest \<and> find_index_of t a = Some (length pre)"
  unfolding after_first_def using find_index_of_first by blast

lemma after_first_unique:
  assumes "after_first t a r1" and "after_first t a r2"
  shows "r1 = r2"
proof -
  obtain p1 where p1: "t = p1 @ a @ r1" "find_index_of t a = Some (length p1)"
    using after_first_find [OF assms(1)] by blast
  obtain p2 where p2: "t = p2 @ a @ r2" "find_index_of t a = Some (length p2)"
    using after_first_find [OF assms(2)] by blast
  from p1(2) p2(2) have "length p1 = length p2" by simp
  with p1(1) p2(1) show ?thesis by (metis append_eq_append_conv same_append_eq)
qed

lemma py_find_0: "py_find t a 0 = (case find_index_of t a of None \<Rightarrow> - 1 | Some k \<Rightarrow> int k)"
  by (simp add: py_find_def split: option.splits)

lemma extract_between_enclosed:
  assumes "a \<noteq> []" and "b \<noteq> []"
  shows "enclosed t a b (extract_between t a b)"
proof (cases "find_index_of t a")
  case None
  then have "extract_between t a b = []"
    by (simp add: extract_between_def py_find_0)
  moreover have "\<not> sublist a t" using None by (simp add: find_index_of_None_iff)
  ultimately show ?thesis
    by (simp add: enclosed_def)
next
  case (Some k)
  define rest where "rest = drop (k + length a) t"
  have af: "after_first t a rest"
    unfolding rest_def using find_index_of_after_first [OF Some assms(1)] .
  then obtain pre where pre: "t = pre @ a @ rest" "find_index_of t a = Some (length pre)"
    using after_first_find by blast
  with Some have k: "k = length pre" by simp
  have len: "\<not> length t < k + length a" using pre(1) k by (metis add_leD1 le_add1 length_append not_less add.assoc)
  show ?thesis
  proof (cases "find_index_of rest b")
    case None
    then have "extract_between t a b = rest"
      using Some len by (simp add: extract_between_def py_find_0 py_find_def Let_def rest_def)
    moreover have "\<not> sublist b rest" using None by (simp add: find_index_of_None_iff)
    ultimately show ?thesis unfolding enclosed_def using af by blast
  next
    case (Some j)
    have "nat (int k + int (length a) + int j) - (k + length a) = j"
      by (simp add: nat_add_distrib)
    with Some have eb: "extract_between t a b = take j rest"
      using \<open>find_index_of t a = Some k\<close> len
      by (simp add: extract_between_def py_find_0 py_find_def Let_def rest_def)
    obtain post where "rest = take j rest @ b @ post"
      using find_index_of_Some [OF Some] by blast
    moreover have "\<not> sublist b (take j rest @ butlast b)"
      using find_index_of_Some_first [OF Some assms(2)] .
    ultimately show ?thesis unfolding enclosed_def eb using af by blast
  qed
qed

lemma enclosed_unique:
  assumes "enclosed t a b v1" and "enclosed t a b v2" and "a \<noteq> []"
  shows "v1 = v2"
proof -
  have absent: "\<not> sublist a t \<Longrightarrow> after_first t a r \<Longrightarrow> False" for r
    unfolding after_first_def by (metis sublist_appendI)
  have val: "after_first t a r \<Longrightarrow> enclosed t a b v \<Longrightarrow>
      (\<not> sublist b r \<and> v = r) \<or> (\<exists>post. r = v @ b @ post \<and> \<not> sublist b (v @ butlast b))" for r v
    unfolding enclosed_def using absent after_first_unique by blast
  show ?thesis
  proof (cases "sublist a t")
    case False
    with assms absent show ?thesis unfolding enclosed_def by blast
  next
    case True
    then obtain k where "find_index_of t a = Some k"
      using find_index_of_None_iff by (metis option.exhaust)
    then obtain r where r: "after_first t a r"
      using find_index_of_after_first assms(3) by blast
    from val [OF r assms(1)] val [OF r assms(2)] show ?thesis
    proof (elim disjE conjE exE)
      fix post assume "\<not> sublist b r" "r = v2 @ b @ post"
      then show ?thesis by (metis sublist_appendI)
    next
      fix post assume "\<not> sublist b r" "r = v1 @ b @ post"
      then show ?thesis by (metis sublist_appendI)
    next
      fix p1 p2 assume a1: "r = v1 @ b @ p1" "\<not> sublist b (v1 @ butlast b)"
        and a2: "r = v2 @ b @ p2" "\<not> sublist b (v2 @ butlast b)"
      have "find_index_of r b = Some (length v1)" using find_index_of_first [OF a1(2)] a1(1) by simp
      moreover have "find_index_of r b = Some (length v2)" using find_index_of_first [OF a2(2)] a2(1) by simp
      ultimately have "length v1 = length v2" by simp
      with a1(1) a2(1) show ?thesis by (metis append_eq_append_conv)
    qed simp
  qed
qed

section \<open>Facts about the parser and the stream\<close>

lemma raw_clean_stream_content: "raw (snd (clean_stream_content st t)) = raw st"
  by (simp add: clean_stream_content_def split: prod.splits)

lemma raw_process_chunk:
  "raw (process_chunk st c) = raw st @ (case c of Delta (Some x) \<Rightarrow> x | _ \<Rightarrow> [])"
proof (cases c)
  case NoChoices then show ?thesis by simp
next
  case (Delta d)
  show ?thesis
  proof (cases d)
    case None with Delta show ?thesis by simp
  next
    case (Some x)
    have "raw (snd (clean_stream_content s t)) = raw s" for s t
      by (rule raw_clean_stream_content)
    then have "clean_stream_content s t = (y, s') \<Longrightarrow> raw s' = raw s" for s t y s'
      by (metis snd_conv)
    then show ?thesis
      using Delta Some
      by (auto simp: Let_def print_out_def split: option.splits prod.splits)
  qed
qed

lemma raw_foldl_process_chunk:
  "raw (foldl process_chunk st cs) = raw st @ concat (fragments cs)"
proof (induction cs arbitrary: st)
  case Nil then show ?case by simp
next
  case (Cons c cs)
  show ?case
  proof (cases c)
    case NoChoices with Cons show ?thesis by simp
  next
    case (Delta d)
    with Cons show ?thesis by (cases d) (simp_all add: raw_process_chunk del: process_chunk.simps)
  qed
qed

lemma raw_request_loop: "raw (request_loop chunks) = concat (fragments chunks)"
  by (simp add: request_loop_def raw_foldl_process_chunk initial_stream_state_def)

lemma lit_nonempty: "s \<noteq> [] \<Longrightarrow> lit s \<noteq> []"
  by (simp add: lit_def)

lemma parse_response_tool_call:
  assumes "py_in (lit ''<tool_call>'') (normalize_xmlish_tags s)"
  shows "\<exists>th ac rest.
           enclosed (normalize_xmlish_tags s) (lit ''<think_text>'') (lit ''</think_text>'') th \<and>
           enclosed (normalize_xmlish_tags s) (lit ''<tool_call>'') (lit ''</tool_call>'') ac \<and>
           after_first (normalize_xmlish_tags s) (lit ''<tool_call>'') rest \<and>
           parse_response s =
             Inr (strip (collapse_ws (strip th)), if strip ac = [] then strip rest else strip ac)"
proof -
  define c where "c = normalize_xmlish_tags s"
  define tc where "tc = lit ''<tool_call>''"
  have tc_ne: "tc \<noteq> []" by (simp add: tc_def lit_def)
  from assms obtain k where k: "find_index_of c tc = Some k"
    by (auto simp: py_in_def c_def tc_def)
  have e1: "enclosed c (lit ''<think_text>'') (lit ''</think_text>'')
              (extract_between c (lit ''<think_text>'') (lit ''</think_text>''))"
    by (rule extract_between_enclosed) (simp_all add: lit_def)
  have e2: "enclosed c tc (lit ''</tool_call>'') (extract_between c tc (lit ''</tool_call>''))"
    by (rule extract_between_enclosed) (simp_all add: lit_def tc_def)
  have af: "after_first c tc (drop (k + length tc) c)"
    using find_index_of_after_first [OF k tc_ne] .
  have pos: "nat (py_find c tc 0) + length tc = k + length tc"
    using k by (simp add: py_find_0)
  have "parse_response s =
          Inr (strip (collapse_ws (strip (extract_between c (lit ''<think_text>'') (lit ''</think_text>'')))),
               if strip (extract_between c tc (lit ''</tool_call>'')) = []
               then strip (drop (k + length tc) c)
               else strip (extract_between c tc (lit ''</tool_call>'')))"
    unfolding parse_response_def Let_def c_def [symmetric] tc_def [symmetric]
    using assms pos by (simp add: c_def [symmetric] tc_def [symmetric])
  with e1 e2 af show ?thesis
    unfolding c_def tc_def by blast
qed

lemma split1_found:
  "find_index_of t m = Some k \<Longrightarrow> split1 t m = [take k t, drop (k + length m) t]"
  by (simp add: split1_def)

lemma parse_response_marker:
  assumes "\<not> py_in (lit ''<tool_call>'') (normalize_xmlish_tags s)"
    and "s = pre @ m @ post" and "\<not> sublist m (pre @ butlast m)"
    and "m = lit ''finish(message=''
         \<or> (m = lit ''do(action='' \<and> \<not> sublist (lit ''finish(message='') s)"
  shows "parse_response s = Inr (strip pre, m @ post)"
proof -
  have k: "find_index_of s m = Some (length pre)"
    using find_index_of_first [OF assms(3)] assms(2) by simp
  then have sp: "split1 s m = [pre, post]"
    using assms(2) by (simp add: split1_found)
  have inm: "py_in m s" using k by (simp add: py_in_def)
  from assms(4) show ?thesis
  proof
    assume "m = lit ''finish(message=''"
    then show ?thesis
      using assms(1) inm sp by (simp add: parse_response_def Let_def list_get_def)
  next
    assume "m = lit ''do(action='' \<and> \<not> sublist (lit ''finish(message='') s"
    then show ?thesis
      using assms(1) inm sp by (simp add: parse_response_def Let_def list_get_def py_in_iff)
  qed
qed

lemma parse_response_total: "\<exists>r. parse_response s = Inr r"
proof -
  have two: "py_in m s \<Longrightarrow> \<exists>a b. split1 s m = [a, b]" for m
    by (auto simp: py_in_def split1_def)
  show ?thesis
  proof (cases "py_in (lit ''<tool_call>'') (normalize_xmlish_tags s)")
    case True then show ?thesis by (simp add: parse_response_def Let_def)
  next
    case False
    show ?thesis
    proof (cases "py_in (lit ''finish(message='') s")
      case True
      with two obtain a b where "split1 s (lit ''finish(message='') = [a, b]" by blast
      with True False show ?thesis by (simp add: parse_response_def Let_def list_get_def)
    next
      case nf: False
      show ?thesis
      proof (cases "py_in (lit ''do(action='') s")
        case True
        with two obtain a b where "split1 s (lit ''do(action='') = [a, b]" by blast
        with True False nf show ?thesis by (simp add: parse_response_def Let_def list_get_def)
      next
        case nd: False
        with False nf show ?thesis by (simp add: parse_response_def Let_def)
      qed
    qed
  qed
qed

lemma parse_response_no_marker:
  "\<not> py_in (lit ''<tool_call>'') (normalize_xmlish_tags s) \<Longrightarrow>
   \<not> sublist (lit ''finish(message='') s \<Longrightarrow> \<not> sublist (lit ''do(action='') s \<Longrightarrow>
   parse_response s = Inr ([], strip s)"
  by (simp add: parse_response_def Let_def py_in_iff)

lemmas string_eval =
  lit_def is_space_def strip_def remove_ws_def py_find_def py_in_def split1_def list_get_def
  extract_between_def Let_def

lemma response_of_stream_eq:
  "response_of_stream chunks =
     (case parse_response (concat (fragments chunks)) of
        Inl e \<Rightarrow> Inl e
      | Inr (t, a) \<Rightarrow> Inr \<lparr>thinking = t, action = a, raw_content = concat (fragments chunks)\<rparr>)"
  by (simp add: response_of_stream_def Let_def raw_request_loop split: sum.splits prod.splits)

section \<open>The response parser: the two formats\<close>

text \<open>
  C1 (amended). When the text, after tag normalization, contains \<open><tool_call>\<close>, the
  parser returns as thinking the substring enclosed between \<open><think_text>\<close> and
  \<open></think_text>\<close> with the whitespace at its ends stripped and every inner run of
  whitespace collapsed to one space, and as action the substring enclosed between
  \<open><tool_call>\<close> and \<open></tool_call>\<close> with the whitespace at its ends stripped, or,
  when that is empty, everything after the first \<open><tool_call>\<close>, stripped. A closing tag
  that is absent makes the enclosed substring run to the end of the text. The response
  depends only on the concatenation of the fragments, not on how they were cut.
\<close>

theorem tool_call_format_extraction:
  assumes "py_in (lit ''<tool_call>'') (normalize_xmlish_tags (concat (fragments chunks)))"
  shows "(\<exists>th ac rest.
           enclosed (normalize_xmlish_tags (concat (fragments chunks)))
             (lit ''<think_text>'') (lit ''</think_text>'') th \<and>
           enclosed (normalize_xmlish_tags (concat (fragments chunks)))
             (lit ''<tool_call>'') (lit ''</tool_call>'') ac \<and>
           after_first (normalize_xmlish_tags (concat (fragments chunks))) (lit ''<tool_call>'') rest \<and>
           response_of_stream chunks =
             Inr \<lparr>thinking = strip (collapse_ws (strip th)),
                  action = (if strip ac = [] then strip rest else strip ac),
                  raw_content = concat (fragments chunks)\<rparr>) \<and>
         (\<forall>chunks'. concat (fragments chunks') = concat (fragments chunks) \<longrightarrow>
            response_of_stream chunks' = response_of_stream chunks)"
proof
  from parse_response_tool_call [OF assms]
  obtain th ac rest where
    "enclosed (normalize_xmlish_tags (concat (fragments chunks)))
       (lit ''<think_text>'') (lit ''</think_text>'') th"
    "enclosed (normalize_xmlish_tags (concat (fragments chunks)))
       (lit ''<tool_call>'') (lit ''</tool_call>'') ac"
    "after_first (normalize_xmlish_tags (concat (fragments chunks))) (lit ''<tool_call>'') rest"
    "parse_response (concat (fragments chunks)) =
       Inr (strip (collapse_ws (strip th)), if strip ac = [] then strip rest else strip ac)"
    by blast
  then show "\<exists>th ac rest.
           enclosed (normalize_xmlish_tags (concat (fragments chunks)))
             (lit ''<think_text>'') (lit ''</think_text>'') th \<and>
           enclosed (normalize_xmlish_tags (concat (fragments chunks)))
             (lit ''<tool_call>'') (lit ''</tool_call>'') ac \<and>
           after_first (normalize_xmlish_tags (concat (fragments chunks))) (lit ''<tool_call>'') rest \<and>
           response_of_stream chunks =
             Inr \<lparr>thinking = strip (collapse_ws (strip th)),
                  action = (if strip ac = [] then strip rest else strip ac),
                  raw_content = concat (fragments chunks)\<rparr>"
    unfolding response_of_stream_eq by (intro exI [of _ th] exI [of _ ac] exI [of _ rest]) simp
next
  show "\<forall>chunks'. concat (fragments chunks') = concat (fragments chunks) \<longrightarrow>
            response_of_stream chunks' = response_of_stream chunks"
  proof (intro allI impI)
    fix chunks'
    assume same: "concat (fragments chunks') = concat (fragments chunks)"
    show "response_of_stream chunks' = response_of_stream chunks"
      unfolding response_of_stream_eq same by (rule refl)
  qed
qed

text \<open>
  The theorem at a stream that cuts the text inside the \<open><tool_call>\<close> tag, compared with
  the same text in one fragment.
\<close>

theorem tool_call_format_extraction_witness:
  "py_in (lit ''<tool_call>'')
     (normalize_xmlish_tags (concat (fragments
        [Delta (Some (lit ''<think_text>go</think_text><to'')), NoChoices,
         Delta (Some (lit ''ol_call>do(action=Back)</tool_call>''))]))) \<and>
   response_of_stream
     [Delta (Some (lit ''<think_text>go</think_text><tool_call>do(action=Back)</tool_call>''))] =
   response_of_stream
     [Delta (Some (lit ''<think_text>go</think_text><to'')), NoChoices,
      Delta (Some (lit ''ol_call>do(action=Back)</tool_call>''))]"
proof -
  let ?cs = "[Delta (Some (lit ''<think_text>go</think_text><to'')), NoChoices,
              Delta (Some (lit ''ol_call>do(action=Back)</tool_call>''))]"
  let ?cs' = "[Delta (Some (lit ''<think_text>go</think_text><tool_call>do(action=Back)</tool_call>''))]"
  have h: "py_in (lit ''<tool_call>'') (normalize_xmlish_tags (concat (fragments ?cs)))"
    by (simp add: string_eval)
  have same: "concat (fragments ?cs') = concat (fragments ?cs)"
    by (simp add: lit_def)
  from tool_call_format_extraction [OF h] same
  have "response_of_stream ?cs' = response_of_stream ?cs"
    by blast
  with h show ?thesis by blast
qed

text \<open>
  The parser does not return the enclosed substrings exactly: in the text below they are
  \<open>" a  b "\<close> and \<open>" x "\<close>, and the response holds \<open>"a b"\<close> and \<open>"x"\<close>.
\<close>

theorem tool_call_format_counterexample:
  "response_of_stream
     [Delta (Some (lit ''<think_text> a  b </think_text><tool_call> x </tool_call>''))] =
     Inr \<lparr>thinking = lit ''a b'', action = lit ''x'',
          raw_content = lit ''<think_text> a  b </think_text><tool_call> x </tool_call>''\<rparr> \<and>
   extract_between
     (normalize_xmlish_tags (lit ''<think_text> a  b </think_text><tool_call> x </tool_call>''))
     (lit ''<think_text>'') (lit ''</think_text>'') = lit '' a  b '' \<and>
   extract_between
     (normalize_xmlish_tags (lit ''<think_text> a  b </think_text><tool_call> x </tool_call>''))
     (lit ''<tool_call>'') (lit ''</tool_call>'') = lit '' x '' \<and>
   lit ''a b'' \<noteq> lit '' a  b '' \<and> lit ''x'' \<noteq> lit '' x ''"
  by (simp add: response_of_stream_eq parse_response_def string_eval)

text \<open>
  C2 (amended). The parse never raises. When the normalized text holds no \<open><tool_call>\<close>,
  the text is split at the first \<open>finish(message=\<close> if there is one, and otherwise at the
  first \<open>do(action=\<close>: the thinking is everything before the marker with the whitespace
  at its ends stripped, the action everything from the marker on. With neither marker the
  thinking is empty and the action is the whole text, stripped.
\<close>

theorem legacy_format_split:
  "(\<exists>r. parse_response s = Inr r) \<and>
   (\<not> py_in (lit ''<tool_call>'') (normalize_xmlish_tags s) \<longrightarrow>
      (\<forall>pre post. s = pre @ lit ''finish(message='' @ post \<and>
           \<not> sublist (lit ''finish(message='') (pre @ butlast (lit ''finish(message='')) \<longrightarrow>
           parse_response s = Inr (strip pre, lit ''finish(message='' @ post)) \<and>
      (\<not> sublist (lit ''finish(message='') s \<longrightarrow>
         (\<forall>pre post. s = pre @ lit ''do(action='' @ post \<and>
              \<not> sublist (lit ''do(action='') (pre @ butlast (lit ''do(action='')) \<longrightarrow>
              parse_response s = Inr (strip pre, lit ''do(action='' @ post))) \<and>
      (\<not> sublist (lit ''finish(message='') s \<and> \<not> sublist (lit ''do(action='') s \<longrightarrow>
         parse_response s = Inr ([], strip s)))"
  using parse_response_total [of s] parse_response_marker [of s] parse_response_no_marker [of s]
  by blast

text \<open>The theorem at one text for each of its three cases.\<close>

theorem legacy_format_split_witness:
  "\<not> py_in (lit ''<tool_call>'') (normalize_xmlish_tags (lit ''ok finish(message=hi)'')) \<and>
   parse_response (lit ''ok finish(message=hi)'') = Inr (lit ''ok'', lit ''finish(message=hi)'') \<and>
   \<not> py_in (lit ''<tool_call>'') (normalize_xmlish_tags (lit ''ok do(action=Back)'')) \<and>
   parse_response (lit ''ok do(action=Back)'') = Inr (lit ''ok'', lit ''do(action=Back)'') \<and>
   \<not> py_in (lit ''<tool_call>'') (normalize_xmlish_tags (lit '' hi '')) \<and>
   parse_response (lit '' hi '') = Inr ([], lit ''hi'')"
proof -
  have n1: "\<not> py_in (lit ''<tool_call>'') (normalize_xmlish_tags (lit ''ok finish(message=hi)''))"
    and n2: "\<not> py_in (lit ''<tool_call>'') (normalize_xmlish_tags (lit ''ok do(action=Back)''))"
    and n3: "\<not> py_in (lit ''<tool_call>'') (normalize_xmlish_tags (lit '' hi ''))"
    by (simp_all add: string_eval)
  have d1: "lit ''ok finish(message=hi)'' = lit ''ok '' @ lit ''finish(message='' @ lit ''hi)'' \<and>
            \<not> sublist (lit ''finish(message='') (lit ''ok '' @ butlast (lit ''finish(message=''))"
    by (simp add: find_index_of_None_iff [symmetric] lit_def)
  have d2: "lit ''ok do(action=Back)'' = lit ''ok '' @ lit ''do(action='' @ lit ''Back)'' \<and>
            \<not> sublist (lit ''do(action='') (lit ''ok '' @ butlast (lit ''do(action=''))"
    and f2: "\<not> sublist (lit ''finish(message='') (lit ''ok do(action=Back)'')"
    by (simp_all add: find_index_of_None_iff [symmetric] lit_def)
  have f3: "\<not> sublist (lit ''finish(message='') (lit '' hi '') \<and> \<not> sublist (lit ''do(action='') (lit '' hi '')"
    by (simp add: find_index_of_None_iff [symmetric] lit_def)
  have "parse_response (lit ''ok finish(message=hi)'') = Inr (strip (lit ''ok ''), lit ''finish(message='' @ lit ''hi)'')"
    using legacy_format_split [of "lit ''ok finish(message=hi)''"] n1 d1 by blast
  moreover have "parse_response (lit ''ok do(action=Back)'') = Inr (strip (lit ''ok ''), lit ''do(action='' @ lit ''Back)'')"
    using legacy_format_split [of "lit ''ok do(action=Back)''"] n2 d2 f2 by blast
  moreover have "parse_response (lit '' hi '') = Inr ([], strip (lit '' hi ''))"
    using legacy_format_split [of "lit '' hi ''"] n3 f3 by blast
  ultimately show ?thesis
    using n1 n2 n3 by (simp add: lit_def strip_def is_space_def)
qed

text \<open>
  The thinking is not everything before the marker, and the fallback action is not the
  entire text: both are stripped. Before the marker stands \<open>"ok "\<close>, returned is \<open>"ok"\<close>;
  the text \<open>" hi "\<close> comes back as \<open>"hi"\<close>.
\<close>

theorem legacy_format_counterexample:
  "\<not> py_in (lit ''<tool_call>'') (normalize_xmlish_tags (lit ''ok do(action=Back)'')) \<and>
   parse_response (lit ''ok do(action=Back)'') = Inr (lit ''ok'', lit ''do(action=Back)'') \<and>
   lit ''ok do(action=Back)'' = lit ''ok '' @ lit ''do(action=Back)'' \<and>
   lit ''ok'' \<noteq> lit ''ok '' \<and>
   \<not> py_in (lit ''<tool_call>'') (normalize_xmlish_tags (lit '' hi '')) \<and>
   parse_response (lit '' hi '') = Inr ([], lit ''hi'') \<and>
   lit ''hi'' \<noteq> lit '' hi ''"
  by (simp add: parse_response_def string_eval)

section \<open>The retry tracker\<close>

lemma update_matching:
  assumes "truthy ty" and "action_type_of a = ty" and "format_action_target a = Inr tg"
    and "last_action_type st = ty" and "last_action_target st = tg"
  shows "update_last_action_state st a = Inr (st\<lparr>retry_count := retry_count st + 1\<rparr>)"
  using assms by (simp add: update_last_action_state_def Let_def)

lemma update_differing:
  assumes "format_action_target a = Inr tg"
    and "\<not> truthy (action_type_of a) \<or> action_type_of a \<noteq> last_action_type st \<or> tg \<noteq> last_action_target st"
  shows "update_last_action_state st a =
           Inr (st\<lparr>last_action_type := action_type_of a, last_action_target := tg,
                   retry_count := (if truthy (action_type_of a) then 1 else 0)\<rparr>)"
  using assms by (auto simp: update_last_action_state_def Let_def)

lemma update_all_matching:
  assumes "truthy ty" and "\<forall>a \<in> set as. action_type_of a = ty \<and> format_action_target a = Inr tg"
    and "last_action_type st = ty" and "last_action_target st = tg"
  shows "update_all st as = Inr (st\<lparr>retry_count := retry_count st + int (length as)\<rparr>)"
  using assms
proof (induction as arbitrary: st)
  case Nil then show ?case by simp
next
  case (Cons a as)
  then have "update_last_action_state st a = Inr (st\<lparr>retry_count := retry_count st + 1\<rparr>)"
    by (simp add: update_matching)
  moreover have "update_all (st\<lparr>retry_count := retry_count st + 1\<rparr>) as =
      Inr (st\<lparr>retry_count := retry_count st + 1\<rparr>
             \<lparr>retry_count := retry_count (st\<lparr>retry_count := retry_count st + 1\<rparr>) + int (length as)\<rparr>)"
    using Cons.prems by (intro Cons.IH) simp_all
  ultimately show ?case by simp
qed

lemma update_all_from_reset:
  assumes "truthy ty" and "\<forall>a \<in> set as. action_type_of a = ty \<and> format_action_target a = Inr tg"
  shows "\<exists>st'. update_all (reset_action_tracking st) as = Inr st' \<and> retry_count st' = int (length as)"
proof (cases as)
  case Nil then show ?thesis by (simp add: reset_action_tracking_def)
next
  case (Cons a as')
  let ?r = "reset_action_tracking st"
  let ?s1 = "?r\<lparr>last_action_type := ty, last_action_target := tg, retry_count := 1\<rparr>"
  have a: "action_type_of a = ty" "format_action_target a = Inr tg"
    using assms(2) Cons by simp_all
  have "action_type_of a \<noteq> last_action_type ?r"
    using assms(1) a(1) by (auto simp: reset_action_tracking_def)
  then have "update_last_action_state ?r a = Inr ?s1"
    using update_differing [OF a(2), of ?r] a(1) assms(1) by simp
  moreover have "update_all ?s1 as' = Inr (?s1\<lparr>retry_count := retry_count ?s1 + int (length as')\<rparr>)"
    using assms Cons by (intro update_all_matching [of ty _ tg]) simp_all
  ultimately show ?thesis using Cons by simp
qed

text \<open>
  C4 (amended). From a reset tracker, \<open>N\<close> consecutive updates with the same signature
  (type and target) whose type is not empty leave the count at \<open>N\<close>. An update whose
  signature differs from the stored one replaces the stored type and target and sets the
  count to 1 when the new type is not empty, and to 0 otherwise.
\<close>

theorem retry_count_counts_repeats:
  "(truthy ty \<and> (\<forall>a \<in> set as. action_type_of a = ty \<and> format_action_target a = Inr tg) \<longrightarrow>
      (\<exists>st'. update_all (reset_action_tracking st) as = Inr st' \<and>
             retry_count st' = int (length as))) \<and>
   (format_action_target b = Inr tg' \<and>
    (action_type_of b \<noteq> last_action_type st \<or> tg' \<noteq> last_action_target st) \<longrightarrow>
      update_last_action_state st b =
        Inr (st\<lparr>last_action_type := action_type_of b, last_action_target := tg',
                retry_count := (if truthy (action_type_of b) then 1 else 0)\<rparr>))"
  using update_all_from_reset [of ty as tg st] update_differing [of b tg' st] by blast

lemmas action_eval =
  format_action_target_def action_type_of_def dict_get_def dict_get_default_def in_names_def
  truncate_text_def Let_def lit_def

lemma back_action_signature:
  "action_type_of back_action = VStr (lit ''Back'') \<and>
   format_action_target back_action = Inr (VStr (lit ''navigation''))"
  by (simp add: back_action_def action_eval)

lemma unnamed_action_signature:
  "action_type_of unnamed_action = VStr [] \<and> format_action_target unnamed_action = Inr (VStr [])"
  by (simp add: unnamed_action_def action_eval)

text \<open>
  Three times \<open>do(action="Back")\<close> from a reset tracker, and then an action of another
  signature whose type is empty.
\<close>

theorem retry_count_counts_repeats_witness:
  "truthy (VStr (lit ''Back'')) \<and>
   map_sum id retry_count
     (update_all (reset_action_tracking initial_agent_state) [back_action, back_action, back_action])
     = Inr 3 \<and>
   map_sum id retry_count
     (update_last_action_state
        (initial_agent_state\<lparr>last_action_type := VStr (lit ''Back''),
                              last_action_target := VStr (lit ''navigation''), retry_count := 3\<rparr>)
        unnamed_action) = Inr 0"
proof -
  let ?st = "initial_agent_state\<lparr>last_action_type := VStr (lit ''Back''),
                              last_action_target := VStr (lit ''navigation''), retry_count := 3\<rparr>"
  have t: "truthy (VStr (lit ''Back''))" by (simp add: lit_def)
  have all: "\<forall>a \<in> set [back_action, back_action, back_action].
      action_type_of a = VStr (lit ''Back'') \<and> format_action_target a = Inr (VStr (lit ''navigation''))"
    using back_action_signature by simp
  have diff: "format_action_target unnamed_action = Inr (VStr []) \<and>
      (action_type_of unnamed_action \<noteq> last_action_type ?st \<or> VStr [] \<noteq> last_action_target ?st)"
    using unnamed_action_signature by (simp add: lit_def)
  from retry_count_counts_repeats [of "VStr (lit ''Back'')" "[back_action, back_action, back_action]"
      "VStr (lit ''navigation'')" initial_agent_state unnamed_action "VStr []"] t all
  obtain st' where
    "update_all (reset_action_tracking initial_agent_state) [back_action, back_action, back_action] = Inr st'"
    "retry_count st' = 3"
    by auto
  moreover
  from retry_count_counts_repeats [of _ "[]" _ ?st unnamed_action "VStr []"] diff
  have "update_last_action_state ?st unnamed_action =
          Inr (?st\<lparr>last_action_type := action_type_of unnamed_action, last_action_target := VStr [],
                  retry_count := (if truthy (action_type_of unnamed_action) then 1 else 0)\<rparr>)"
    by blast
  ultimately show ?thesis
    using t unnamed_action_signature by simp
qed

text \<open>
  With an empty type the count does not follow the number of repetitions: the same
  signature fed twice leaves it at 0.
\<close>

theorem retry_count_empty_type_counterexample:
  "action_type_of unnamed_action = VStr [] \<and>
   format_action_target unnamed_action = Inr (VStr []) \<and>
   map_sum id retry_count
     (update_all (reset_action_tracking initial_agent_state) [unnamed_action, unnamed_action])
     = Inr 0"
  using unnamed_action_signature
  by (simp add: update_last_action_state_def reset_action_tracking_def initial_agent_state_def Let_def)

lemma tracker_inv_update:
  assumes "tracker_inv lt st" and "format_action_target a = Inr tg"
    and "update_last_action_state st a = Inr st'"
  shows "tracker_inv (Some (action_type_of a)) st'"
  using assms
  by (cases lt) (auto simp: tracker_inv_def update_last_action_state_def Let_def split: if_splits)

lemma tracker_inv_reset: "tracker_inv None (reset_action_tracking st)"
  by (simp add: tracker_inv_def reset_action_tracking_def)

lemma tracker_inv_foldl:
  "tracker_inv lt st \<Longrightarrow> tracker_inv (last_classified lt es) (foldl apply_event st es)"
proof (induction es arbitrary: st lt)
  case Nil
  then show ?case by simp
next
  case (Cons e es)
  show ?case
  proof (cases e)
    case Reset
    have "tracker_inv (last_classified None es) (foldl apply_event (reset_action_tracking st) es)"
      by (rule Cons.IH) (rule tracker_inv_reset)
    with Reset show ?thesis by simp
  next
    case (Update a)
    show ?thesis
    proof (cases "format_action_target a")
      case (Inl x)
      then have "update_last_action_state st a = Inl x"
        by (simp add: update_last_action_state_def Let_def)
      moreover have "tracker_inv (last_classified lt es) (foldl apply_event st es)"
        by (rule Cons.IH) (rule Cons.prems)
      ultimately show ?thesis using Update Inl by simp
    next
      case (Inr tg)
      then have "\<exists>st'. update_last_action_state st a = Inr st'"
        by (simp add: update_last_action_state_def Let_def)
      then obtain st' where st': "update_last_action_state st a = Inr st'"
        by blast
      have "tracker_inv (Some (action_type_of a)) st'"
        using Cons.prems Inr st' by (rule tracker_inv_update)
      then have "tracker_inv (last_classified (Some (action_type_of a)) es) (foldl apply_event st' es)"
        by (rule Cons.IH)
      then show ?thesis using Update Inr st' by simp
    qed
  qed
qed

text \<open>
  C9 (amended). In every state reached from the initial one by updates and resets, the
  retry count is 0 if and only if no action has been classified since the last reset or
  the action classified last had an empty type; in every other reachable state the count
  is at least 1.
\<close>

theorem retry_count_zero_iff_no_typed_action:
  "(retry_count (foldl apply_event initial_agent_state es) = 0 \<longleftrightarrow>
      (case last_classified None es of None \<Rightarrow> True | Some t \<Rightarrow> \<not> truthy t)) \<and>
   (retry_count (foldl apply_event initial_agent_state es) = 0 \<or>
    1 \<le> retry_count (foldl apply_event initial_agent_state es))"
proof -
  have "tracker_inv None initial_agent_state"
    by (simp add: tracker_inv_def initial_agent_state_def)
  then have "tracker_inv (last_classified None es) (foldl apply_event initial_agent_state es)"
    by (rule tracker_inv_foldl)
  then show ?thesis
    by (cases "last_classified None es") (auto simp: tracker_inv_def split: if_splits)
qed

text \<open>The theorem after two equal updates, and after an update followed by a reset.\<close>

theorem retry_count_zero_iff_no_typed_action_witness:
  "retry_count (foldl apply_event initial_agent_state [Update back_action, Update back_action]) = 2 \<and>
   last_classified None [Update back_action, Update back_action] = Some (VStr (lit ''Back'')) \<and>
   retry_count (foldl apply_event initial_agent_state [Update back_action, Reset]) = 0 \<and>
   last_classified None [Update back_action, Reset] = None"
proof -
  have a: "last_classified None [Update back_action, Update back_action] = Some (VStr (lit ''Back''))"
    and b: "last_classified None [Update back_action, Reset] = None"
    using back_action_signature by simp_all
  have "retry_count (foldl apply_event initial_agent_state [Update back_action, Reset]) = 0"
    using retry_count_zero_iff_no_typed_action [of "[Update back_action, Reset]"] b by simp
  moreover have "retry_count (foldl apply_event initial_agent_state [Update back_action, Update back_action]) \<noteq> 0"
    using retry_count_zero_iff_no_typed_action [of "[Update back_action, Update back_action]"] a
    by (simp add: lit_def)
  moreover have "retry_count (foldl apply_event initial_agent_state [Update back_action, Update back_action]) \<le> 2"
    using back_action_signature
    by (simp add: update_last_action_state_def Let_def initial_agent_state_def lit_def)
  moreover have "1 < retry_count (foldl apply_event initial_agent_state [Update back_action, Update back_action])"
    using back_action_signature
    by (simp add: update_last_action_state_def Let_def initial_agent_state_def lit_def)
  ultimately show ?thesis using a b by simp
qed

text \<open>
  A count of 0 does not mean that nothing has been classified: after one update with a
  \<open>do\<close> action whose name is empty the count is 0.
\<close>

theorem retry_count_zero_counterexample:
  "retry_count (foldl apply_event initial_agent_state [Update unnamed_action]) = 0 \<and>
   last_classified None [Update unnamed_action] = Some (VStr []) \<and>
   format_action_target unnamed_action = Inr (VStr [])"
  using unnamed_action_signature
  by (simp add: update_last_action_state_def Let_def initial_agent_state_def)

lemma suffix_last: "suffix xs ys \<Longrightarrow> xs \<noteq> [] \<Longrightarrow> last ys = last xs"
  by (auto simp: suffix_def)

lemma retry_note_text_no_escalation:
  "\<not> suffix escalation_clause (retry_note_text ty tg n)"
proof
  assume "suffix escalation_clause (retry_note_text ty tg n)"
  then have "last (retry_note_text ty tg n) = last escalation_clause"
    by (rule suffix_last) (simp add: escalation_clause_def)
  then show False
    by (simp add: retry_note_text_def escalation_clause_def)
qed

text \<open>
  C8. With the threshold 3 of the default configuration, the note rendered for a count of
  1 or 2 is the plain note, which does not end with the escalation clause, and the note
  rendered for a count of 3 or more is the plain note followed by the escalation clause.
  A note is rendered when the stored type is not empty.
\<close>

theorem retry_note_escalation:
  assumes "retry_reminder_threshold cfg = 3" and "truthy (last_action_type st)"
  shows "(retry_count st = 1 \<or> retry_count st = 2 \<longrightarrow>
            (\<exists>note. build_retry_note cfg st = Some note \<and>
               note = retry_note_text (last_action_type st)
                        (if truthy (last_action_target st)
                         then lit '' '' @ py_str (last_action_target st) else [])
                        (retry_count st) \<and>
               \<not> suffix escalation_clause note)) \<and>
         (3 \<le> retry_count st \<longrightarrow>
            (\<exists>note. build_retry_note cfg st = Some note \<and>
               note = retry_note_text (last_action_type st)
                        (if truthy (last_action_target st)
                         then lit '' '' @ py_str (last_action_target st) else [])
                        (retry_count st) @ escalation_clause \<and>
               suffix escalation_clause note))"
proof -
  have "suffix escalation_clause (x @ escalation_clause)" for x
    by (rule suffixI) simp
  with assms retry_note_text_no_escalation show ?thesis
    by (auto simp: build_retry_note_def Let_def)
qed

text \<open>The default configuration, a tap repeated twice and three times.\<close>

theorem retry_note_escalation_witness:
  "retry_reminder_threshold (default_agent_config []) = 3 \<and>
   build_retry_note (default_agent_config [])
     (initial_agent_state\<lparr>last_action_type := VStr (lit ''Tap''),
        last_action_target := VStr (lit ''(100, 200)''), retry_count := 2\<rparr>) =
     Some (retry_note_text (VStr (lit ''Tap'')) (lit '' (100, 200)'') 2) \<and>
   build_retry_note (default_agent_config [])
     (initial_agent_state\<lparr>last_action_type := VStr (lit ''Tap''),
        last_action_target := VStr (lit ''(100, 200)''), retry_count := 3\<rparr>) =
     Some (retry_note_text (VStr (lit ''Tap'')) (lit '' (100, 200)'') 3 @ escalation_clause)"
proof -
  let ?cfg = "default_agent_config []"
  let ?st = "\<lambda>n. initial_agent_state\<lparr>last_action_type := VStr (lit ''Tap''),
        last_action_target := VStr (lit ''(100, 200)''), retry_count := n\<rparr>"
  have th: "retry_reminder_threshold ?cfg = 3" by (simp add: default_agent_config_def)
  have ty: "truthy (last_action_type (?st n))" for n by (simp add: lit_def)
  have tg: "(if truthy (last_action_target (?st n))
             then lit '' '' @ py_str (last_action_target (?st n)) else []) = lit '' (100, 200)''" for n
    by (simp add: lit_def)
  from retry_note_escalation [OF th ty, of 2]
  have "build_retry_note ?cfg (?st 2) = Some (retry_note_text (VStr (lit ''Tap'')) (lit '' (100, 200)'') 2)"
    unfolding tg by simp
  moreover from retry_note_escalation [OF th ty, of 3]
  have "build_retry_note ?cfg (?st 3) =
          Some (retry_note_text (VStr (lit ''Tap'')) (lit '' (100, 200)'') 3 @ escalation_clause)"
    unfolding tg by simp
  ultimately show ?thesis using th by simp
qed

section \<open>The step and the loop of the agent\<close>

lemma finish_fields:
  "dict_get (finish m) (lit ''_metadata'') = VStr (lit ''finish'')"
  "dict_get (finish m) (lit ''message'') = VStr m"
  by (simp_all add: finish_def dict_get_def lit_def)

lemma format_action_target_finish:
  "dict_get a (lit ''_metadata'') = VStr (lit ''finish'') \<Longrightarrow>
   format_action_target a = Inr (dict_get_default a (lit ''message'') (VStr []))"
  by (simp add: format_action_target_def Let_def)

lemma update_last_action_state_finish:
  "dict_get a (lit ''_metadata'') = VStr (lit ''finish'') \<Longrightarrow>
   \<exists>st'. update_last_action_state st a = Inr st'"
  by (simp add: update_last_action_state_def Let_def format_action_target_finish)

lemma conclude_step_finish:
  assumes "dict_get ea (lit ''_metadata'') = VStr (lit ''finish'')"
  shows "\<exists>r st'. conclude_step resp ea result st = (Inr r, st') \<and> finished r \<and>
           result_action r = Some ea"
proof -
  obtain st' where
    "update_last_action_state
       (st\<lparr>context := context st @
          [create_assistant_message
             (lit ''<think>'' @ thinking resp @ lit ''</think><answer>''
              @ action resp @ lit ''</answer>'')]\<rparr>) ea = Inr st'"
    using update_last_action_state_finish [OF assms] by blast
  then show ?thesis
    using assms by (simp add: conclude_step_def Let_def)
qed

lemma execute_step_model_error:
  assumes "get_screenshot env (device_id cfg) w0 = (Inr shot, w1)"
    and "get_current_app env (device_id cfg) w1 = (Inr app, w2)"
    and "request env (context (append_user_turn cfg p f app shot (st0\<lparr>step_count := step_count st0 + 1\<rparr>))) w2
           = (Inl e, w3)"
    and "is_Exception e"
  shows "execute_step env cfg p f st0 w0 =
           (Inr \<lparr>success = False, finished = True, result_action = None, result_thinking = [],
                 message = VStr (lit ''Model error: '' @ exn_str e)\<rparr>,
            append_user_turn cfg p f app shot (st0\<lparr>step_count := step_count st0 + 1\<rparr>), w3)"
  using assms by (simp add: execute_step_def Let_def)

lemma execute_step_tail:
  assumes "get_screenshot env (device_id cfg) w0 = (Inr shot, w1)"
    and "get_current_app env (device_id cfg) w1 = (Inr app, w2)"
    and "request env (context (append_user_turn cfg p f app shot (st0\<lparr>step_count := step_count st0 + 1\<rparr>))) w2
           = (Inr resp, w3)"
    and "decode_action env resp = Inr act"
    and "dispatch env act shot w3 = (Inr (ea, result), w5)"
    and "dict_get ea (lit ''_metadata'') = VStr (lit ''finish'')"
  shows "\<exists>r st'. execute_step env cfg p f st0 w0 = (Inr r, st', w5) \<and> finished r \<and>
           result_action r = Some ea"
proof -
  let ?st2 = "append_user_turn cfg p f app shot (st0\<lparr>step_count := step_count st0 + 1\<rparr>)"
  let ?st3 = "?st2\<lparr>context := (context ?st2)[length (context ?st2) - 1 :=
                                      remove_images_from_message (last (context ?st2))]\<rparr>"
  obtain r st' where c: "conclude_step resp ea result ?st3 = (Inr r, st')" "finished r"
      "result_action r = Some ea"
    using conclude_step_finish [OF assms(6)] by blast
  have "execute_step env cfg p f st0 w0 = (Inr r, st', w5)"
    using assms(1-5) c(1) by (simp add: execute_step_def Let_def)
  with c show ?thesis by blast
qed

lemma decode_action_caught:
  "decode_action env resp = Inr act \<Longrightarrow> parse_action env (action resp) = Inl e \<Longrightarrow>
   act = finish (action resp)"
  by (simp add: decode_action_def split: if_splits)

lemma decode_action_ValueError:
  "parse_action env (action resp) = Inl e \<Longrightarrow> is_ValueError e \<Longrightarrow>
   decode_action env resp = Inr (finish (action resp))"
  by (simp add: decode_action_def)

lemma dispatch_returns:
  "dispatch env act shot w3 = (Inr (ea, result), w5) \<Longrightarrow>
   (ea = act \<and> execute env act (width shot) (height shot) w3 = (Inr result, w5)) \<or>
   (\<exists>e w4. execute env act (width shot) (height shot) w3 = (Inl e, w4) \<and> ea = finish (exn_str e))"
  by (auto simp: dispatch_def Let_def split: prod.splits sum.splits if_splits)

lemma dispatch_ok_first:
  "execute env act (width shot) (height shot) w3 = (Inr result, w4) \<Longrightarrow>
   dispatch env act shot w3 = (Inr (act, result), w4)"
  by (simp add: dispatch_def)

lemma append_user_turn_later:
  "append_user_turn cfg p False app shot st = append_user_turn cfg None False app shot st"
  by (simp add: append_user_turn_def)

lemma execute_step_later:
  "execute_step env cfg p False st w = execute_step env cfg None False st w"
  unfolding execute_step_def append_user_turn_later [of cfg p] by (rule refl)

lemma scripted_env_fields:
  "get_screenshot (scripted_env shot stream decoded exec) d w = (shot, w)"
  "get_current_app (scripted_env shot stream decoded exec) d w = (Inr (lit ''home''), w)"
  "chat_completions_create (scripted_env shot stream decoded exec) m w = (stream, w)"
  "parse_action (scripted_env shot stream decoded exec) s = decoded"
  "execute (scripted_env shot stream decoded exec) a wd ht w = (exec w, Suc w)"
  by (simp_all add: scripted_env_def)

lemma request_scripted:
  "request (scripted_env shot (chunks, None) decoded exec) m w = (response_of_stream chunks, w)"
  "request (scripted_env shot (chunks, Some e) decoded exec) m w = (Inl e, w)"
  by (simp_all add: request_def scripted_env_fields)

lemma response_of_stream_empty:
  "response_of_stream [] = Inr \<lparr>thinking = [], action = [], raw_content = []\<rparr>"
  by (simp add: response_of_stream_eq parse_response_def string_eval)

lemma response_of_stream_undecodable:
  "response_of_stream [Delta (Some (lit ''tap the button''))] =
     Inr \<lparr>thinking = [], action = lit ''tap the button'', raw_content = lit ''tap the button''\<rparr>"
  by (simp add: response_of_stream_eq parse_response_def string_eval)

lemma idle_step:
  "\<exists>r st' w'. execute_step idle_env cfg p f st w = (Inr r, st', w') \<and> \<not> finished r"
proof -
  let ?st2 = "append_user_turn cfg p f (lit ''home'') blank_screenshot (st\<lparr>step_count := step_count st + 1\<rparr>)"
  let ?st3 = "?st2\<lparr>context := (context ?st2)[length (context ?st2) - 1 :=
                                      remove_images_from_message (last (context ?st2))]\<rparr>"
  let ?resp = "\<lparr>thinking = [], action = [], raw_content = []\<rparr>"
  have upd: "\<exists>s'. update_last_action_state s back_action = Inr s'" for s
    using back_action_signature by (simp add: update_last_action_state_def Let_def)
  have nf: "dict_get back_action (lit ''_metadata'') \<noteq> VStr (lit ''finish'')"
    by (simp add: back_action_def dict_get_def lit_def)
  have "\<exists>r s'. conclude_step ?resp back_action dispatch_ok ?st3 = (Inr r, s') \<and> \<not> finished r"
  proof -
    obtain s' where "update_last_action_state
       (?st3\<lparr>context := context ?st3 @
          [create_assistant_message
             (lit ''<think>'' @ thinking ?resp @ lit ''</think><answer>''
              @ action ?resp @ lit ''</answer>'')]\<rparr>) back_action = Inr s'"
      using upd by blast
    then show ?thesis
      using nf by (simp add: conclude_step_def Let_def dispatch_ok_def)
  qed
  then obtain r s' where c: "conclude_step ?resp back_action dispatch_ok ?st3 = (Inr r, s')" "\<not> finished r"
    by blast
  have "execute_step idle_env cfg p f st w = (Inr r, s', Suc w)"
    using c(1)
    by (simp add: execute_step_def Let_def idle_env_def scripted_env_fields request_scripted
          response_of_stream_empty decode_action_def dispatch_def always_ok_def)
  with c(2) show ?thesis by blast
qed

lemma run_loop_never_finished:
  assumes "\<forall>p f st w. \<exists>r st' w'. execute_step env cfg p f st w = (Inr r, st', w') \<and> \<not> finished r"
    and "n = nat (max_steps cfg - step_count st)"
  shows "\<exists>st' w'. run_loop env cfg st w = (Inr (VStr (lit ''Max steps reached'')), st', w') \<and>
           step_count st' = max (step_count st) (max_steps cfg)"
  using assms(2)
proof (induction n arbitrary: st w)
  case 0
  then have "\<not> step_count st < max_steps cfg" by simp
  then show ?case by (subst run_loop.simps) (simp add: max_def)
next
  case (Suc n)
  then have lt: "step_count st < max_steps cfg" by simp
  from assms(1) obtain r st' w' where
    s: "execute_step env cfg None False st w = (Inr r, st', w')" "\<not> finished r"
    by blast
  have sc: "step_count st' = step_count st + 1"
    using s(1) by (rule step_count_execute_step)
  with Suc.prems have "n = nat (max_steps cfg - step_count st')" by simp
  from Suc.IH [OF this, of w'] obtain st'' w'' where
    "run_loop env cfg st' w' = (Inr (VStr (lit ''Max steps reached'')), st'', w'')"
    "step_count st'' = max (step_count st') (max_steps cfg)"
    by blast
  moreover have "run_loop env cfg st w = run_loop env cfg st' w'"
    using lt s by (subst run_loop.simps) simp
  ultimately show ?case using sc lt by (simp add: max_def)
qed

lemma run_never_finished:
  assumes "\<forall>p f st w. \<exists>r st' w'. execute_step env cfg p f st w = (Inr r, st', w') \<and> \<not> finished r"
  shows "\<exists>st' w'. run env cfg task st w = (Inr (VStr (lit ''Max steps reached'')), st', w') \<and>
           step_count st' = max 1 (max_steps cfg)"
proof -
  let ?st0 = "reset_action_tracking (st\<lparr>context := [], step_count := 0\<rparr>)"
  from assms obtain r st1 w1 where
    s: "execute_step env cfg (Some task) True ?st0 w = (Inr r, st1, w1)" "\<not> finished r"
    by blast
  have "step_count st1 = step_count ?st0 + 1"
    using s(1) by (rule step_count_execute_step)
  then have sc: "step_count st1 = 1" by (simp add: reset_action_tracking_def)
  from run_loop_never_finished [OF assms refl, of st1 w1] obtain st' w' where
    "run_loop env cfg st1 w1 = (Inr (VStr (lit ''Max steps reached'')), st', w')"
    "step_count st' = max (step_count st1) (max_steps cfg)"
    by blast
  moreover have "run env cfg task st w = run_loop env cfg st1 w1"
    using s by (simp add: run_def Let_def)
  ultimately show ?thesis using sc by simp
qed

lemma undecodable_request:
  "request (undecodable_env exec) m w =
     (Inr \<lparr>thinking = [], action = lit ''tap the button'', raw_content = lit ''tap the button''\<rparr>, w)"
  by (simp add: undecodable_env_def request_scripted response_of_stream_undecodable)

lemma undecodable_parse:
  "parse_action (undecodable_env exec) s = Inl (Exn ValueError (lit ''Failed to parse action''))"
  by (simp add: undecodable_env_def scripted_env_fields)

lemma undecodable_device:
  "get_screenshot (undecodable_env exec) d w = (Inr blank_screenshot, w)"
  "get_current_app (undecodable_env exec) d w = (Inr (lit ''home''), w)"
  "execute (undecodable_env exec) a wd ht w = (exec w, Suc w)"
  by (simp_all add: undecodable_env_def scripted_env_fields)

lemma undecodable_raise_once_dispatch:
  "dispatch (undecodable_env raise_once) a blank_screenshot 0 =
     (Inr (finish (lit ''boom''), dispatch_ok), 2)"
  by (simp add: dispatch_def undecodable_device raise_once_def Let_def)

lemma undecodable_raise_once_step:
  "\<exists>r st'. execute_step (undecodable_env raise_once) cfg None False initial_agent_state 0
              = (Inr r, st', 2) \<and>
            finished r \<and> result_action r = Some (finish (lit ''boom''))"
proof -
  let ?env = "undecodable_env raise_once"
  let ?resp = "\<lparr>thinking = [], action = lit ''tap the button'', raw_content = lit ''tap the button''\<rparr>"
  have shot: "get_screenshot ?env (device_id cfg) 0 = (Inr blank_screenshot, 0)"
    and app: "get_current_app ?env (device_id cfg) 0 = (Inr (lit ''home''), 0)"
    by (simp_all add: undecodable_device)
  have req: "request ?env (context (append_user_turn cfg None False (lit ''home'') blank_screenshot
                 (initial_agent_state\<lparr>step_count := step_count initial_agent_state + 1\<rparr>))) 0
               = (Inr ?resp, 0)"
    by (rule undecodable_request)
  have dec: "decode_action ?env ?resp = Inr (finish (action ?resp))"
    by (rule decode_action_ValueError [OF undecodable_parse]) simp
  show ?thesis
    by (rule execute_step_tail [OF shot app req dec undecodable_raise_once_dispatch finish_fields(1)])
qed

lemma idle_step_world:
  "execute_step idle_env cfg p f st w = (r, st', w') \<Longrightarrow> w' = Suc w"
  by (auto simp: execute_step_def Let_def idle_env_def scripted_env_fields request_scripted
        response_of_stream_empty decode_action_def dispatch_def always_ok_def
      split: prod.splits sum.splits)

lemma idle_run_loop_world:
  assumes "n = nat (max_steps cfg - step_count st)"
    and "run_loop idle_env cfg st w = (r, st', w')"
  shows "int w' - step_count st' = int w - step_count st"
  using assms
proof (induction n arbitrary: st w)
  case 0
  then have "\<not> step_count st < max_steps cfg" by simp
  then have "run_loop idle_env cfg st w = (Inr (VStr (lit ''Max steps reached'')), st, w)"
    by (subst run_loop.simps) simp
  with "0.prems"(2) show ?case by simp
next
  case (Suc n)
  then have lt: "step_count st < max_steps cfg" by simp
  obtain x s1 w1 where s: "execute_step idle_env cfg None False st w = (Inr x, s1, w1)" "\<not> finished x"
    using idle_step by blast
  have sc: "step_count s1 = step_count st + 1"
    using s(1) by (rule step_count_execute_step)
  have w1: "w1 = Suc w" using s(1) by (rule idle_step_world)
  have "run_loop idle_env cfg st w = run_loop idle_env cfg s1 w1"
    using lt s by (subst run_loop.simps) simp
  with Suc.prems(2) have r: "run_loop idle_env cfg s1 w1 = (r, st', w')" by simp
  from Suc.prems(1) sc have "n = nat (max_steps cfg - step_count s1)" by simp
  from Suc.IH [OF this r] show ?case using sc w1 by simp
qed

lemma idle_run_world:
  assumes "run idle_env cfg task st w = (r, st', w')"
  shows "int w' - step_count st' = int w"
proof -
  let ?st0 = "reset_action_tracking (st\<lparr>context := [], step_count := 0\<rparr>)"
  obtain x s1 w1 where s: "execute_step idle_env cfg (Some task) True ?st0 w = (Inr x, s1, w1)"
      "\<not> finished x"
    using idle_step by blast
  have "step_count s1 = step_count ?st0 + 1"
    using s(1) by (rule step_count_execute_step)
  then have sc: "step_count s1 = 1" by (simp add: reset_action_tracking_def)
  have w1: "w1 = Suc w" using s(1) by (rule idle_step_world)
  have "run idle_env cfg task st w = run_loop idle_env cfg s1 w1"
    using s by (simp add: run_def Let_def)
  with assms have "run_loop idle_env cfg s1 w1 = (r, st', w')" by simp
  from idle_run_loop_world [OF refl this] show ?thesis using sc w1 by simp
qed

lemma dispatch_catches:
  assumes "execute env act (width shot) (height shot) w3 = (Inl e, w4)" and "is_Exception e"
    and "execute env (finish (exn_str e)) (width shot) (height shot) w4 = (Inr result, w5)"
  shows "dispatch env act shot w3 = (Inr (finish (exn_str e), result), w5)"
  using assms by (simp add: dispatch_def Let_def)

lemma run_loop_unfinished:
  assumes "n = nat (max_steps cfg - step_count st)"
    and "executed_steps_unfinished env cfg st w"
  shows "\<exists>st' w'. run_loop env cfg st w = (Inr (VStr (lit ''Max steps reached'')), st', w') \<and>
           step_count st' = max (step_count st) (max_steps cfg)"
  using assms
proof (induction n arbitrary: st w)
  case 0
  then have "\<not> step_count st < max_steps cfg" by simp
  then show ?case by (subst run_loop.simps) (simp add: max_def)
next
  case (Suc n)
  then have lt: "step_count st < max_steps cfg" by simp
  from Suc.prems(2) lt obtain r st' w' where
    s: "execute_step env cfg None False st w = (Inr r, st', w')" "\<not> finished r"
    and rest: "executed_steps_unfinished env cfg st' w'"
    by (subst (asm) executed_steps_unfinished.simps) (auto split: prod.splits sum.splits)
  have sc: "step_count st' = step_count st + 1"
    using s(1) by (rule step_count_execute_step)
  with Suc.prems(1) have "n = nat (max_steps cfg - step_count st')" by simp
  from Suc.IH [OF this rest] obtain st'' w'' where
    "run_loop env cfg st' w' = (Inr (VStr (lit ''Max steps reached'')), st'', w'')"
    "step_count st'' = max (step_count st') (max_steps cfg)"
    by blast
  moreover have "run_loop env cfg st w = run_loop env cfg st' w'"
    using lt s by (subst run_loop.simps) simp
  ultimately show ?case using sc lt by (simp add: max_def)
qed

lemma late_step:
  "\<exists>r st'. execute_step late_env cfg p f st w = (Inr r, st', Suc w) \<and> (finished r \<longleftrightarrow> 5 \<le> w)"
proof -
  let ?st2 = "append_user_turn cfg p f (lit ''home'') blank_screenshot (st\<lparr>step_count := step_count st + 1\<rparr>)"
  let ?st3 = "?st2\<lparr>context := (context ?st2)[length (context ?st2) - 1 :=
                                      remove_images_from_message (last (context ?st2))]\<rparr>"
  let ?resp = "\<lparr>thinking = [], action = [], raw_content = []\<rparr>"
  let ?res = "dispatch_ok\<lparr>should_finish := (5 \<le> w)\<rparr>"
  have upd: "\<exists>s'. update_last_action_state s back_action = Inr s'" for s
    using back_action_signature by (simp add: update_last_action_state_def Let_def)
  have nf: "dict_get back_action (lit ''_metadata'') \<noteq> VStr (lit ''finish'')"
    by (simp add: back_action_def dict_get_def lit_def)
  have "\<exists>r s'. conclude_step ?resp back_action ?res ?st3 = (Inr r, s') \<and> (finished r \<longleftrightarrow> 5 \<le> w)"
  proof -
    obtain s' where "update_last_action_state
       (?st3\<lparr>context := context ?st3 @
          [create_assistant_message
             (lit ''<think>'' @ thinking ?resp @ lit ''</think><answer>''
              @ action ?resp @ lit ''</answer>'')]\<rparr>) back_action = Inr s'"
      using upd by blast
    then show ?thesis
      using nf by (simp add: conclude_step_def Let_def dispatch_ok_def)
  qed
  then obtain r s' where c: "conclude_step ?resp back_action ?res ?st3 = (Inr r, s')"
      "finished r \<longleftrightarrow> 5 \<le> w"
    by blast
  have "execute_step late_env cfg p f st w = (Inr r, s', Suc w)"
    using c(1)
    by (simp add: execute_step_def Let_def late_env_def scripted_env_fields request_scripted
          response_of_stream_empty decode_action_def dispatch_def finish_late_def)
  with c(2) show ?thesis by blast
qed

subsection \<open>Errors inside a step\<close>

text \<open>
  C3 (amended). When the device snapshot and the foreground application have been
  acquired, an \<open>Exception\<close> of the model transport is caught and the step returns a
  terminal result (finished, not successful, with the text of the error). A \<open>ValueError\<close>
  of the decoder is caught and a finish action with the action text is dispatched in
  place of the decoded action; an \<open>Exception\<close> of the first dispatch is caught and a
  finish action with the text of the exception is dispatched again. When one of these
  two errors has occurred and the last dispatch returns, the step returns a result that
  is finished and carries the finish action dispatched last.
\<close>

theorem caught_errors_end_the_step:
  assumes "get_screenshot env (device_id cfg) w0 = (Inr shot, w1)"
    and "get_current_app env (device_id cfg) w1 = (Inr app, w2)"
  shows
    "(\<forall>e w3.
        request env (context (append_user_turn cfg p f app shot
                                (st0\<lparr>step_count := step_count st0 + 1\<rparr>))) w2 = (Inl e, w3) \<and>
        is_Exception e \<longrightarrow>
        execute_step env cfg p f st0 w0 =
          (Inr \<lparr>success = False, finished = True, result_action = None, result_thinking = [],
                message = VStr (lit ''Model error: '' @ exn_str e)\<rparr>,
           append_user_turn cfg p f app shot (st0\<lparr>step_count := step_count st0 + 1\<rparr>), w3)) \<and>
     (\<forall>resp w3 act ea result w5.
        request env (context (append_user_turn cfg p f app shot
                                (st0\<lparr>step_count := step_count st0 + 1\<rparr>))) w2 = (Inr resp, w3) \<and>
        (parse_action env (action resp) = Inr act \<or>
         (\<exists>e. parse_action env (action resp) = Inl e \<and> is_ValueError e \<and>
              act = finish (action resp))) \<and>
        ((execute env act (width shot) (height shot) w3 = (Inr result, w5) \<and> ea = act) \<or>
         (\<exists>e w4. execute env act (width shot) (height shot) w3 = (Inl e, w4) \<and> is_Exception e \<and>
                 ea = finish (exn_str e) \<and>
                 execute env ea (width shot) (height shot) w4 = (Inr result, w5))) \<and>
        ((\<exists>e. parse_action env (action resp) = Inl e) \<or>
         (\<exists>e w4. execute env act (width shot) (height shot) w3 = (Inl e, w4))) \<longrightarrow>
        (\<exists>r st'. execute_step env cfg p f st0 w0 = (Inr r, st', w5) \<and> finished r \<and>
                  result_action r = Some ea \<and>
                  dict_get ea (lit ''_metadata'') = VStr (lit ''finish'')))"
proof (intro conjI allI impI)
  fix e w3
  assume "request env (context (append_user_turn cfg p f app shot
                                (st0\<lparr>step_count := step_count st0 + 1\<rparr>))) w2 = (Inl e, w3) \<and>
        is_Exception e"
  then show "execute_step env cfg p f st0 w0 =
          (Inr \<lparr>success = False, finished = True, result_action = None, result_thinking = [],
                message = VStr (lit ''Model error: '' @ exn_str e)\<rparr>,
           append_user_turn cfg p f app shot (st0\<lparr>step_count := step_count st0 + 1\<rparr>), w3)"
    using execute_step_model_error [OF assms] by blast
next
  fix resp w3 act ea result w5
  assume a: "request env (context (append_user_turn cfg p f app shot
                                (st0\<lparr>step_count := step_count st0 + 1\<rparr>))) w2 = (Inr resp, w3) \<and>
        (parse_action env (action resp) = Inr act \<or>
         (\<exists>e. parse_action env (action resp) = Inl e \<and> is_ValueError e \<and>
              act = finish (action resp))) \<and>
        ((execute env act (width shot) (height shot) w3 = (Inr result, w5) \<and> ea = act) \<or>
         (\<exists>e w4. execute env act (width shot) (height shot) w3 = (Inl e, w4) \<and> is_Exception e \<and>
                 ea = finish (exn_str e) \<and>
                 execute env ea (width shot) (height shot) w4 = (Inr result, w5))) \<and>
        ((\<exists>e. parse_action env (action resp) = Inl e) \<or>
         (\<exists>e w4. execute env act (width shot) (height shot) w3 = (Inl e, w4)))"
  then have req: "request env (context (append_user_turn cfg p f app shot
                                (st0\<lparr>step_count := step_count st0 + 1\<rparr>))) w2 = (Inr resp, w3)"
    by simp
  have dec: "decode_action env resp = Inr act"
    using a by (auto simp: decode_action_def)
  have dis: "dispatch env act shot w3 = (Inr (ea, result), w5)"
    using a by (auto simp: dispatch_ok_first dispatch_catches)
  have "\<exists>m. ea = finish m"
  proof -
    from a consider e where "parse_action env (action resp) = Inl e"
      | e w4 where "execute env act (width shot) (height shot) w3 = (Inl e, w4)"
      by blast
    then show ?thesis
    proof cases
      case 1
      then have "act = finish (action resp)" using dec by (simp add: decode_action_caught)
      with dispatch_returns [OF dis] show ?thesis by blast
    next
      case 2
      with dispatch_returns [OF dis] show ?thesis by auto
    qed
  qed
  then have fin: "dict_get ea (lit ''_metadata'') = VStr (lit ''finish'')"
    by (auto simp: finish_fields)
  from execute_step_tail [OF assms req dec dis fin] fin
  show "\<exists>r st'. execute_step env cfg p f st0 w0 = (Inr r, st', w5) \<and> finished r \<and>
                  result_action r = Some ea \<and>
                  dict_get ea (lit ''_metadata'') = VStr (lit ''finish'')"
    by blast
qed

text \<open>
  A transport that times out; and a decoder that raises a \<open>ValueError\<close>, followed by an
  executor that raises on the first dispatch and returns on the second.
\<close>

theorem caught_errors_end_the_step_witness:
  "is_Exception (Exn OtherException (lit ''timeout'')) \<and>
   fst (execute_step timeout_env (default_agent_config []) None False initial_agent_state 0) =
     Inr \<lparr>success = False, finished = True, result_action = None, result_thinking = [],
          message = VStr (lit ''Model error: timeout'')\<rparr> \<and>
   is_ValueError (Exn ValueError (lit ''Failed to parse action'')) \<and>
   is_Exception (Exn OtherException (lit ''boom'')) \<and>
   (\<exists>r st'. execute_step (undecodable_env raise_once) (default_agent_config []) None False
               initial_agent_state 0 = (Inr r, st', 2) \<and>
             finished r \<and> result_action r = Some (finish (lit ''boom'')))"
proof -
  let ?cfg = "default_agent_config []"
  let ?st2 = "append_user_turn ?cfg None False (lit ''home'') blank_screenshot
                 (initial_agent_state\<lparr>step_count := step_count initial_agent_state + 1\<rparr>)"
  let ?resp = "\<lparr>thinking = [], action = lit ''tap the button'', raw_content = lit ''tap the button''\<rparr>"
  have ex: "is_Exception (Exn OtherException (lit ''timeout''))" by simp
  have shot1: "get_screenshot timeout_env (device_id ?cfg) 0 = (Inr blank_screenshot, 0)"
    and app1: "get_current_app timeout_env (device_id ?cfg) 0 = (Inr (lit ''home''), 0)"
    and req1: "request timeout_env (context ?st2) 0 = (Inl (Exn OtherException (lit ''timeout'')), 0)"
    by (simp_all add: timeout_env_def scripted_env_fields request_scripted)
  from caught_errors_end_the_step [OF shot1 app1, of None False initial_agent_state] req1 ex
  have "execute_step timeout_env ?cfg None False initial_agent_state 0 =
          (Inr \<lparr>success = False, finished = True, result_action = None, result_thinking = [],
                message = VStr (lit ''Model error: '' @ exn_str (Exn OtherException (lit ''timeout'')))\<rparr>,
           ?st2, 0)"
    by blast
  then have one: "fst (execute_step timeout_env ?cfg None False initial_agent_state 0) =
     Inr \<lparr>success = False, finished = True, result_action = None, result_thinking = [],
          message = VStr (lit ''Model error: timeout'')\<rparr>"
    by (simp add: lit_def)
  let ?env = "undecodable_env raise_once"
  let ?boom = "Exn OtherException (lit ''boom'')"
  have ve: "is_ValueError (Exn ValueError (lit ''Failed to parse action''))"
    and be: "is_Exception ?boom" by simp_all
  have shot2: "get_screenshot ?env (device_id ?cfg) 0 = (Inr blank_screenshot, 0)"
    and app2: "get_current_app ?env (device_id ?cfg) 0 = (Inr (lit ''home''), 0)"
    by (simp_all add: undecodable_device)
  have req2: "request ?env (context ?st2) 0 = (Inr ?resp, 0)"
    by (rule undecodable_request)
  have par2: "parse_action ?env (action ?resp) = Inl (Exn ValueError (lit ''Failed to parse action''))"
    by (rule undecodable_parse)
  have e1: "execute ?env (finish (action ?resp)) (width blank_screenshot) (height blank_screenshot) 0
              = (Inl ?boom, 1)"
    by (simp add: undecodable_device raise_once_def)
  have e2: "execute ?env (finish (exn_str ?boom)) (width blank_screenshot) (height blank_screenshot) 1
              = (Inr dispatch_ok, 2)"
    by (simp add: undecodable_device raise_once_def)
  have decoded: "parse_action ?env (action ?resp) = Inr (finish (action ?resp)) \<or>
         (\<exists>e. parse_action ?env (action ?resp) = Inl e \<and> is_ValueError e \<and>
              finish (action ?resp) = finish (action ?resp))"
    using par2 ve by blast
  have dispatched:
    "(execute ?env (finish (action ?resp)) (width blank_screenshot) (height blank_screenshot) 0
        = (Inr dispatch_ok, 2) \<and> finish (exn_str ?boom) = finish (action ?resp)) \<or>
     (\<exists>e w4. execute ?env (finish (action ?resp)) (width blank_screenshot) (height blank_screenshot) 0
                = (Inl e, w4) \<and> is_Exception e \<and> finish (exn_str ?boom) = finish (exn_str e) \<and>
              execute ?env (finish (exn_str ?boom)) (width blank_screenshot) (height blank_screenshot) w4
                = (Inr dispatch_ok, 2))"
    using e1 e2 be by blast
  have caught: "(\<exists>e. parse_action ?env (action ?resp) = Inl e) \<or>
      (\<exists>e w4. execute ?env (finish (action ?resp)) (width blank_screenshot) (height blank_screenshot) 0
                 = (Inl e, w4))"
    using par2 by blast
  from caught_errors_end_the_step [OF shot2 app2, of None False initial_agent_state]
    req2 decoded dispatched caught
  have "\<exists>r st'. execute_step ?env ?cfg None False initial_agent_state 0 = (Inr r, st', 2) \<and>
             finished r \<and> result_action r = Some (finish (exn_str ?boom))"
    by blast
  then have two: "\<exists>r st'. execute_step ?env ?cfg None False initial_agent_state 0 = (Inr r, st', 2) \<and>
             finished r \<and> result_action r = Some (finish (lit ''boom''))"
    by simp
  from ex one ve be two show ?thesis by blast
qed

text \<open>
  An error of the snapshot acquisition leaves the step as an exception, and so does an
  error of the second dispatch.
\<close>

theorem uncaught_errors_counterexample:
  "fst (execute_step offline_env (default_agent_config []) None False initial_agent_state 0)
     = Inl (Exn OtherException (lit ''device offline'')) \<and>
   fst (execute_step broken_executor_env (default_agent_config []) None False initial_agent_state 0)
     = Inl (Exn OtherException (lit ''boom''))"
  by (simp add: execute_step_def Let_def offline_env_def broken_executor_env_def
        scripted_env_fields request_scripted response_of_stream_empty decode_action_def
        dispatch_def always_raise_def)

subsection \<open>The step ceiling\<close>

text \<open>
  C5 (amended). When every step that \<open>run\<close> executes for the task returns a result that
  is not finished, and the ceiling is at least 1, \<open>run\<close> returns the sentinel
  \<open>Max steps reached\<close> with the step counter, which \<open>run\<close> resets and every step
  increases by one, equal to the ceiling.
\<close>

theorem run_stops_at_ceiling:
  assumes "no_step_finishes env cfg task st w" and "1 \<le> max_steps cfg"
  shows "\<exists>st' w'. run env cfg task st w = (Inr (VStr (lit ''Max steps reached'')), st', w') \<and>
           step_count st' = max_steps cfg"
proof -
  let ?st0 = "reset_action_tracking (st\<lparr>context := [], step_count := 0\<rparr>)"
  from assms(1) obtain r st1 w1 where
    s: "execute_step env cfg (Some task) True ?st0 w = (Inr r, st1, w1)" "\<not> finished r"
    and rest: "executed_steps_unfinished env cfg st1 w1"
    by (auto simp: no_step_finishes_def split: prod.splits sum.splits)
  have "step_count st1 = step_count ?st0 + 1"
    using s(1) by (rule step_count_execute_step)
  then have sc: "step_count st1 = 1" by (simp add: reset_action_tracking_def)
  from run_loop_unfinished [OF refl rest] obtain st' w' where
    "run_loop env cfg st1 w1 = (Inr (VStr (lit ''Max steps reached'')), st', w')"
    "step_count st' = max (step_count st1) (max_steps cfg)"
    by blast
  moreover have "run env cfg task st w = run_loop env cfg st1 w1"
    using s by (simp add: run_def Let_def)
  ultimately show ?thesis using sc assms(2) by (simp add: max_def)
qed

text \<open>
  The ceiling 2 with an executor that would report completion from its sixth dispatch
  on: neither of the two steps executed is finished, and \<open>run\<close> returns the sentinel
  after two steps, the executor having been called twice.
\<close>

theorem run_stops_at_ceiling_witness:
  "1 \<le> max_steps ((default_agent_config [])\<lparr>max_steps := 2\<rparr>) \<and>
   no_step_finishes late_env ((default_agent_config [])\<lparr>max_steps := 2\<rparr>)
     (lit ''open settings'') initial_agent_state 0 \<and>
   fst (run late_env ((default_agent_config [])\<lparr>max_steps := 2\<rparr>) (lit ''open settings'')
          initial_agent_state 0) = Inr (VStr (lit ''Max steps reached'')) \<and>
   step_count (fst (snd (run late_env ((default_agent_config [])\<lparr>max_steps := 2\<rparr>)
          (lit ''open settings'') initial_agent_state 0))) = 2 \<and>
   snd (snd (run late_env ((default_agent_config [])\<lparr>max_steps := 2\<rparr>)
          (lit ''open settings'') initial_agent_state 0)) = 2"
proof -
  let ?cfg = "(default_agent_config [])\<lparr>max_steps := 2\<rparr>"
  let ?task = "lit ''open settings''"
  let ?st0 = "reset_action_tracking (initial_agent_state\<lparr>context := [], step_count := 0\<rparr>)"
  have m: "1 \<le> max_steps ?cfg" by simp
  obtain r1 st1 where s1: "execute_step late_env ?cfg (Some ?task) True ?st0 0 = (Inr r1, st1, 1)"
      "\<not> finished r1"
    using late_step [of ?cfg "Some ?task" True ?st0 0] by auto
  have "step_count st1 = step_count ?st0 + 1"
    using s1(1) by (rule step_count_execute_step)
  then have c1: "step_count st1 = 1" by (simp add: reset_action_tracking_def)
  obtain r2 st2 where s2: "execute_step late_env ?cfg None False st1 1 = (Inr r2, st2, 2)"
      "\<not> finished r2"
    using late_step [of ?cfg None False st1 1] by auto
  have "step_count st2 = step_count st1 + 1"
    using s2(1) by (rule step_count_execute_step)
  with c1 have c2: "step_count st2 = 2" by simp
  have "executed_steps_unfinished late_env ?cfg st2 2"
    using c2 by (subst executed_steps_unfinished.simps) simp
  then have "executed_steps_unfinished late_env ?cfg st1 1"
    using c1 s2 by (subst executed_steps_unfinished.simps) simp
  then have h: "no_step_finishes late_env ?cfg ?task initial_agent_state 0"
    using s1 by (simp add: no_step_finishes_def)
  from run_stops_at_ceiling [OF h m] obtain st' w' where
    r: "run late_env ?cfg ?task initial_agent_state 0 = (Inr (VStr (lit ''Max steps reached'')), st', w')"
      "step_count st' = max_steps ?cfg"
    by blast
  have "run late_env ?cfg ?task initial_agent_state 0 = run_loop late_env ?cfg st1 1"
    using s1 by (simp add: run_def Let_def)
  also have "\<dots> = run_loop late_env ?cfg st2 2"
    using c1 s2 by (subst run_loop.simps) simp
  also have "\<dots> = (Inr (VStr (lit ''Max steps reached'')), st2, 2)"
    using c2 by (subst run_loop.simps) simp
  finally have "w' = 2" using r(1) by simp
  with r m h show ?thesis by simp
qed

text \<open>
  With the ceiling 0 the first step is still executed, and the executor called once: one
  step more than the ceiling.
\<close>

theorem run_ceiling_zero_counterexample:
  "max_steps ((default_agent_config [])\<lparr>max_steps := 0\<rparr>) = 0 \<and>
   fst (run idle_env ((default_agent_config [])\<lparr>max_steps := 0\<rparr>) (lit ''open settings'')
          initial_agent_state 0) = Inr (VStr (lit ''Max steps reached'')) \<and>
   step_count (fst (snd (run idle_env ((default_agent_config [])\<lparr>max_steps := 0\<rparr>)
          (lit ''open settings'') initial_agent_state 0))) = 1 \<and>
   snd (snd (run idle_env ((default_agent_config [])\<lparr>max_steps := 0\<rparr>)
          (lit ''open settings'') initial_agent_state 0)) = 1"
proof -
  let ?cfg = "(default_agent_config [])\<lparr>max_steps := 0\<rparr>"
  have h: "\<forall>p f st w. \<exists>r st' w'. execute_step idle_env ?cfg p f st w = (Inr r, st', w') \<and> \<not> finished r"
    using idle_step by blast
  from run_never_finished [OF h, of "lit ''open settings''" initial_agent_state 0]
  obtain st' w' where
    "run idle_env ?cfg (lit ''open settings'') initial_agent_state 0
       = (Inr (VStr (lit ''Max steps reached'')), st', w')"
    "step_count st' = max 1 (max_steps ?cfg)"
    by blast
  then show ?thesis using idle_run_world [of ?cfg "lit ''open settings''" initial_agent_state 0]
    by simp
qed

subsection \<open>Decoder failures\<close>

text \<open>
  C6 (amended). When the decoder raises a \<open>ValueError\<close> on the action text and the executor
  returns on the finish action that carries this text, the step returns a result that is
  finished and carries that finish action, whose message is the raw action text.
\<close>

theorem decode_failure_ends_step:
  assumes "get_screenshot env (device_id cfg) w0 = (Inr shot, w1)"
    and "get_current_app env (device_id cfg) w1 = (Inr app, w2)"
    and "request env (context (append_user_turn cfg p f app shot
                                 (st0\<lparr>step_count := step_count st0 + 1\<rparr>))) w2 = (Inr resp, w3)"
    and "parse_action env (action resp) = Inl e" and "is_ValueError e"
    and "execute env (finish (action resp)) (width shot) (height shot) w3 = (Inr result, w4)"
  shows "\<exists>r st'. execute_step env cfg p f st0 w0 = (Inr r, st', w4) \<and> finished r \<and>
           result_action r = Some (finish (action resp)) \<and>
           dict_get (finish (action resp)) (lit ''message'') = VStr (action resp)"
proof -
  have dec: "decode_action env resp = Inr (finish (action resp))"
    using assms(4,5) by (rule decode_action_ValueError)
  have dis: "dispatch env (finish (action resp)) shot w3 = (Inr (finish (action resp), result), w4)"
    using assms(6) by (rule dispatch_ok_first)
  from execute_step_tail [OF assms(1-3) dec dis finish_fields(1)] finish_fields(2)
  show ?thesis by blast
qed

text \<open>
  A decoder that rejects the text \<open>tap the button\<close> and an executor that accepts the finish
  action.
\<close>

theorem decode_failure_ends_step_witness:
  "is_ValueError (Exn ValueError (lit ''Failed to parse action'')) \<and>
   (\<exists>r st'. execute_step (undecodable_env always_ok) (default_agent_config []) None False
               initial_agent_state 0 = (Inr r, st', 1) \<and>
             finished r \<and> result_action r = Some (finish (lit ''tap the button'')))"
proof -
  let ?env = "undecodable_env always_ok"
  let ?cfg = "default_agent_config []"
  let ?resp = "\<lparr>thinking = [], action = lit ''tap the button'', raw_content = lit ''tap the button''\<rparr>"
  have v: "is_ValueError (Exn ValueError (lit ''Failed to parse action''))" by simp
  have shot: "get_screenshot ?env (device_id ?cfg) 0 = (Inr blank_screenshot, 0)"
    and app: "get_current_app ?env (device_id ?cfg) 0 = (Inr (lit ''home''), 0)"
    by (simp_all add: undecodable_device)
  have req: "request ?env (context (append_user_turn ?cfg None False (lit ''home'') blank_screenshot
                 (initial_agent_state\<lparr>step_count := step_count initial_agent_state + 1\<rparr>))) 0
               = (Inr ?resp, 0)"
    by (rule undecodable_request)
  have par: "parse_action ?env (action ?resp) = Inl (Exn ValueError (lit ''Failed to parse action''))"
    by (rule undecodable_parse)
  have exe: "execute ?env (finish (action ?resp)) (width blank_screenshot) (height blank_screenshot) 0
               = (Inr dispatch_ok, 1)"
    by (simp add: undecodable_device always_ok_def)
  from decode_failure_ends_step [OF shot app req par v exe]
  have "\<exists>r st'. execute_step ?env ?cfg None False initial_agent_state 0 = (Inr r, st', 1) \<and>
             finished r \<and> result_action r = Some (finish (lit ''tap the button''))"
    by auto
  with v show ?thesis by blast
qed

text \<open>
  When the executor raises on the finish action that carries the raw text, the result
  carries another finish action, with the text of the executor's exception.
\<close>

theorem decode_failure_counterexample:
  "parse_action (undecodable_env raise_once) (lit ''tap the button'')
     = Inl (Exn ValueError (lit ''Failed to parse action'')) \<and>
   map_sum id action (response_of_stream [Delta (Some (lit ''tap the button''))])
     = Inr (lit ''tap the button'') \<and>
   map_sum id result_action
     (fst (execute_step (undecodable_env raise_once) (default_agent_config []) None False
             initial_agent_state 0)) = Inr (Some (finish (lit ''boom''))) \<and>
   dict_get (finish (lit ''boom'')) (lit ''message'') = VStr (lit ''boom'') \<and>
   lit ''boom'' \<noteq> lit ''tap the button''"
proof -
  obtain r st' where
    "execute_step (undecodable_env raise_once) (default_agent_config []) None False
       initial_agent_state 0 = (Inr r, st', 2)"
    "result_action r = Some (finish (lit ''boom''))"
    using undecodable_raise_once_step by blast
  then have "map_sum id result_action
     (fst (execute_step (undecodable_env raise_once) (default_agent_config []) None False
             initial_agent_state 0)) = Inr (Some (finish (lit ''boom'')))"
    by simp
  moreover have "lit ''boom'' \<noteq> lit ''tap the button''"
    by (simp add: lit_def)
  moreover have "map_sum id action (response_of_stream [Delta (Some (lit ''tap the button''))])
     = Inr (lit ''tap the button'')"
    by (simp add: response_of_stream_undecodable)
  ultimately show ?thesis
    using undecodable_parse [of raise_once] finish_fields(2) [of "lit ''boom''"] by blast
qed

subsection \<open>The task argument of \<open>step\<close>\<close>

text \<open>
  C10. When the context is not empty, \<open>step\<close> ignores its task: the result, the state of
  the agent (with the appended turns) and the state of the world are those of \<open>step\<close>
  without a task.
\<close>

theorem step_ignores_task_after_first:
  "context st \<noteq> [] \<Longrightarrow> step env cfg task st w = step env cfg None st w"
  using execute_step_later [of env cfg task st w] by (simp add: step_def)

text \<open>
  A step with a task and one without, from a context that holds a system message.
\<close>

theorem step_ignores_task_after_first_witness:
  "context (initial_agent_state\<lparr>context := [create_system_message []]\<rparr>) \<noteq> [] \<and>
   step idle_env (default_agent_config []) (Some (lit ''another task''))
     (initial_agent_state\<lparr>context := [create_system_message []]\<rparr>) 0 =
   step idle_env (default_agent_config []) None
     (initial_agent_state\<lparr>context := [create_system_message []]\<rparr>) 0"
proof -
  have h: "context (initial_agent_state\<lparr>context := [create_system_message []]\<rparr>) \<noteq> []"
    by simp
  show ?thesis
  proof (rule conjI)
    show "context (initial_agent_state\<lparr>context := [create_system_message []]\<rparr>) \<noteq> []"
      by (rule h)
    show "step idle_env (default_agent_config []) (Some (lit ''another task''))
            (initial_agent_state\<lparr>context := [create_system_message []]\<rparr>) 0 =
          step idle_env (default_agent_config []) None
            (initial_agent_state\<lparr>context := [create_system_message []]\<rparr>) 0"
      by (rule step_ignores_task_after_first [OF h])
  qed
qed

section \<open>The live preview of the stream\<close>












end
